theory Spec2Isabelle
  imports Main "HOL-Library.Word"
begin

chapter \<open>The handle-based wrapper over the node runtime\<close>

text \<open>
  The development embeds two source files: \<^verbatim>\<open>rcl_like_wrapper.cpp\<close> (the handle-based
  API, \<^verbatim>\<open>Executor\<close> and \<^verbatim>\<open>Rate\<close>) and \<^verbatim>\<open>subscriber.hpp\<close> (the listener of a
  subscription and its dispatch closure). The classes \<^verbatim>\<open>Node\<close>, \<^verbatim>\<open>Publisher\<close>,
  \<^verbatim>\<open>Timer\<close> and \<^verbatim>\<open>Channel\<close> are declared in headers that are not part of the sources
  (\<^verbatim>\<open>node.hpp\<close>, \<^verbatim>\<open>channel.hpp\<close>); what they do is a parameter of the model.

  Names are those of the code. A data member \<^verbatim>\<open>x_\<close> of a class is the record field
  \<open>x\<close>, since a field name cannot end with an underscore.
\<close>

section \<open>Handles, exceptions and the world behind the handles\<close>

text \<open>
  A handle is an \<^verbatim>\<open>intptr_t\<close>: the address of a \<^verbatim>\<open>Node\<close>, \<^verbatim>\<open>Publisher\<close>, \<^verbatim>\<open>Subscriber\<close>
  or \<^verbatim>\<open>Timer\<close> object cast to an integer (64 bits here), with 0 for the null pointer.
\<close>

type_synonym intptr_t = "64 word"

text \<open>
  A C++ exception is either derived from \<^verbatim>\<open>std::exception\<close> (it carries the text of
  \<^verbatim>\<open>what()\<close>) or anything else.
\<close>

datatype exn = Std_exception string | Unknown_exception

text \<open>
  What stops a function of the handle API before it returns: calling a member function
  through a null pointer, or an exception that no handler of the function catches.
\<close>

datatype failure = Null_dereference | Uncaught exn

text \<open>
  The member functions of the node layer that the handle API calls, with their arguments:
  the object they are called on comes first. \<open>'d\<close> is the type descriptor
  (\<^verbatim>\<open>MessageType\<close>), \<open>'q\<close> the topic QoS, \<open>'f\<close> and \<open>'g\<close> the callbacks of a
  subscription and of a timer; a message is passed by address.
\<close>

datatype ('d, 'q, 'f, 'g) node_call =
    New_Node "16 word"
  | Node_destroy intptr_t
  | Node_spin intptr_t
  | Node_spin_once intptr_t
  | Node_spin_some intptr_t
  | Node_stop_spin intptr_t
  | Node_create_publisher intptr_t 'd string 'q
  | Node_create_subscription intptr_t 'd string 'q 'f
  | Node_create_timer intptr_t int 'g
  | Publisher_publish intptr_t intptr_t
  | Publisher_get_subscriber_count intptr_t
  | Subscriber_get_publisher_count intptr_t

text \<open>
  The classes \<^verbatim>\<open>Node\<close>, \<^verbatim>\<open>Publisher\<close>, \<^verbatim>\<open>Subscriber\<close> and \<^verbatim>\<open>Timer\<close> that
  \<^verbatim>\<open>rcl_like_wrapper.cpp\<close> uses come from \<^verbatim>\<open>node.hpp\<close>, which is not among the
  sources. The node layer is therefore a parameter of every function that calls it: it
  decides, from the calls made so far and the call at hand, which pointer a creating
  call returns or which exception it throws (the constructor of \<^verbatim>\<open>Subscriber\<close> in
  \<^verbatim>\<open>subscriber.hpp\<close> reports every failure by throwing), and which count a counting
  call returns. A call that returns nothing is only recorded. Whether a non-zero handle
  still points to a live object is never checked by the wrapper, and the model does not
  decide it either.
\<close>

record ('d, 'q, 'f, 'g) node_layer =
  returned_pointer ::
    "('d, 'q, 'f, 'g) node_call list \<Rightarrow> ('d, 'q, 'f, 'g) node_call \<Rightarrow> exn + intptr_t"
  returned_count ::
    "('d, 'q, 'f, 'g) node_call list \<Rightarrow> ('d, 'q, 'f, 'g) node_call \<Rightarrow> 32 word"

text \<open>
  The state the wrapper works on: the lines it has written to \<^verbatim>\<open>std::cerr\<close>, the global
  registry \<^verbatim>\<open>message_types\<close>, the flag \<^verbatim>\<open>global_stop_flag\<close>, and the calls that have
  reached the node layer, oldest first.
\<close>

record ('d, 'q, 'f, 'g) world =
  cerr :: "string list"
  message_types :: "string \<rightharpoonup> 'd"
  global_stop_flag :: bool
  calls :: "('d, 'q, 'f, 'g) node_call list"

definition log_cerr :: "string \<Rightarrow> ('d, 'q, 'f, 'g) world \<Rightarrow> ('d, 'q, 'f, 'g) world" where
  "log_cerr line w = w\<lparr>cerr := cerr w @ [line]\<rparr>"

text \<open>\<^verbatim>\<open>obj->f(...)\<close> for a member function that returns nothing.\<close>

definition call_void ::
  "intptr_t \<Rightarrow> ('d, 'q, 'f, 'g) node_call \<Rightarrow> ('d, 'q, 'f, 'g) world
     \<Rightarrow> failure + ('d, 'q, 'f, 'g) world" where
  "call_void obj c w =
     (if obj = 0 then Inl Null_dereference else Inr (w\<lparr>calls := calls w @ [c]\<rparr>))"

text \<open>\<^verbatim>\<open>obj->f(...)\<close> for a member function that returns a pointer.\<close>

definition call_pointer ::
  "('d, 'q, 'f, 'g) node_layer \<Rightarrow> intptr_t \<Rightarrow> ('d, 'q, 'f, 'g) node_call
     \<Rightarrow> ('d, 'q, 'f, 'g) world \<Rightarrow> failure + (intptr_t \<times> ('d, 'q, 'f, 'g) world)" where
  "call_pointer nl obj c w =
     (if obj = 0 then Inl Null_dereference
      else (case returned_pointer nl (calls w) c of
              Inl e \<Rightarrow> Inl (Uncaught e)
            | Inr p \<Rightarrow> Inr (p, w\<lparr>calls := calls w @ [c]\<rparr>)))"

text \<open>\<^verbatim>\<open>obj->f()\<close> for a member function that returns an \<^verbatim>\<open>int32_t\<close> count.\<close>

definition call_count ::
  "('d, 'q, 'f, 'g) node_layer \<Rightarrow> intptr_t \<Rightarrow> ('d, 'q, 'f, 'g) node_call
     \<Rightarrow> ('d, 'q, 'f, 'g) world \<Rightarrow> failure + (32 word \<times> ('d, 'q, 'f, 'g) world)" where
  "call_count nl obj c w =
     (if obj = 0 then Inl Null_dereference
      else Inr (returned_count nl (calls w) c, w\<lparr>calls := calls w @ [c]\<rparr>))"

text \<open>
  The expression \<^verbatim>\<open>new Node(domain_id)\<close>. A new-expression of this form never yields a
  null pointer: when no memory can be had it throws \<^verbatim>\<open>std::bad_alloc\<close>, and an
  exception of the constructor leaves it as well.
\<close>

definition new_Node ::
  "('d, 'q, 'f, 'g) node_layer \<Rightarrow> 16 word \<Rightarrow> ('d, 'q, 'f, 'g) world
     \<Rightarrow> failure + (intptr_t \<times> ('d, 'q, 'f, 'g) world)" where
  "new_Node nl domain_id w =
     (case returned_pointer nl (calls w) (New_Node domain_id) of
        Inl e \<Rightarrow> Inl (Uncaught e)
      | Inr p \<Rightarrow>
          if p = 0 then Inl (Uncaught (Std_exception ''std::bad_alloc''))
          else Inr (p, w\<lparr>calls := calls w @ [New_Node domain_id]\<rparr>))"

text \<open>\<^verbatim>\<open>signal_handler\<close>: \<^verbatim>\<open>SIGINT\<close> is 2 and \<^verbatim>\<open>SIGTERM\<close> is 15.\<close>

definition signal_handler :: "int \<Rightarrow> ('d, 'q, 'f, 'g) world \<Rightarrow> ('d, 'q, 'f, 'g) world" where
  "signal_handler signal w =
     (if signal = 2 \<or> signal = 15 then w\<lparr>global_stop_flag := True\<rparr> else w)"

section \<open>The handle API\<close>

text \<open>
  Every function below is one function of \<^verbatim>\<open>rcl_like_wrapper.cpp\<close>, branch by branch.
  A function that returns a value returns it together with the new world.
\<close>

definition create_node ::
  "('d, 'q, 'f, 'g) node_layer \<Rightarrow> 16 word \<Rightarrow> ('d, 'q, 'f, 'g) world
     \<Rightarrow> failure + (intptr_t \<times> ('d, 'q, 'f, 'g) world)" where
  "create_node nl domain_id w =
     (case new_Node nl domain_id w of
        Inl f \<Rightarrow> Inl f
      | Inr (node, w') \<Rightarrow> if node = 0 then Inr (0, w') else Inr (node, w'))"

definition destroy_node ::
  "intptr_t \<Rightarrow> ('d, 'q, 'f, 'g) world \<Rightarrow> failure + ('d, 'q, 'f, 'g) world" where
  "destroy_node node_ptr w = call_void node_ptr (Node_destroy node_ptr) w"

definition spin ::
  "intptr_t \<Rightarrow> ('d, 'q, 'f, 'g) world \<Rightarrow> failure + ('d, 'q, 'f, 'g) world" where
  "spin node_ptr w =
     (if node_ptr = 0 then Inr (log_cerr ''node pointer is invalid!'' w)
      else call_void node_ptr (Node_spin node_ptr) w)"

definition spin_once ::
  "intptr_t \<Rightarrow> ('d, 'q, 'f, 'g) world \<Rightarrow> failure + ('d, 'q, 'f, 'g) world" where
  "spin_once node_ptr w =
     (if node_ptr = 0 then Inr (log_cerr ''node pointer is invalid!'' w)
      else call_void node_ptr (Node_spin_once node_ptr) w)"

definition spin_some ::
  "intptr_t \<Rightarrow> ('d, 'q, 'f, 'g) world \<Rightarrow> failure + ('d, 'q, 'f, 'g) world" where
  "spin_some node_ptr w =
     (if node_ptr = 0 then Inr (log_cerr ''node pointer is invalid!'' w)
      else call_void node_ptr (Node_spin_some node_ptr) w)"

definition stop_spin ::
  "intptr_t \<Rightarrow> ('d, 'q, 'f, 'g) world \<Rightarrow> failure + ('d, 'q, 'f, 'g) world" where
  "stop_spin node_ptr w =
     (if node_ptr = 0 then Inr (log_cerr ''node pointer is invalid!'' w)
      else call_void node_ptr (Node_stop_spin node_ptr) w)"

definition create_publisher ::
  "('d, 'q, 'f, 'g) node_layer \<Rightarrow> intptr_t \<Rightarrow> string \<Rightarrow> string \<Rightarrow> 'q
     \<Rightarrow> ('d, 'q, 'f, 'g) world \<Rightarrow> failure + (intptr_t \<times> ('d, 'q, 'f, 'g) world)" where
  "create_publisher nl node_ptr message_type_name topic qos w =
     (if node_ptr = 0 then Inr (0, log_cerr ''node pointer is invalid!'' w)
      else (case message_types w message_type_name of
              None \<Rightarrow> Inr (0, w)
            | Some message_type \<Rightarrow>
                (case call_pointer nl node_ptr
                        (Node_create_publisher node_ptr message_type (''rt/'' @ topic) qos) w of
                   Inl f \<Rightarrow> Inl f
                 | Inr (publisher, w') \<Rightarrow>
                     if publisher = 0 then Inr (0, w') else Inr (publisher, w'))))"

definition publish ::
  "intptr_t \<Rightarrow> intptr_t \<Rightarrow> ('d, 'q, 'f, 'g) world \<Rightarrow> failure + ('d, 'q, 'f, 'g) world" where
  "publish publisher_ptr message w =
     (if publisher_ptr = 0 then Inr (log_cerr ''publisher pointer is invalid!'' w)
      else call_void publisher_ptr (Publisher_publish publisher_ptr message) w)"

definition get_subscriber_count ::
  "('d, 'q, 'f, 'g) node_layer \<Rightarrow> intptr_t \<Rightarrow> ('d, 'q, 'f, 'g) world
     \<Rightarrow> failure + (32 word \<times> ('d, 'q, 'f, 'g) world)" where
  "get_subscriber_count nl publisher_ptr w =
     (if publisher_ptr = 0 then Inr (0, log_cerr ''publisher pointer is invalid!'' w)
      else call_count nl publisher_ptr (Publisher_get_subscriber_count publisher_ptr) w)"

definition create_subscription ::
  "('d, 'q, 'f, 'g) node_layer \<Rightarrow> intptr_t \<Rightarrow> string \<Rightarrow> string \<Rightarrow> 'q \<Rightarrow> 'f
     \<Rightarrow> ('d, 'q, 'f, 'g) world \<Rightarrow> failure + (intptr_t \<times> ('d, 'q, 'f, 'g) world)" where
  "create_subscription nl node_ptr message_type_name topic qos callback w =
     (if node_ptr = 0 then Inr (0, log_cerr ''node pointer is invalid!'' w)
      else (case message_types w message_type_name of
              None \<Rightarrow> Inr (0, w)
            | Some message_type \<Rightarrow>
                (case call_pointer nl node_ptr
                        (Node_create_subscription node_ptr message_type (''rt/'' @ topic) qos
                           callback) w of
                   Inl f \<Rightarrow> Inl f
                 | Inr (subscriber, w') \<Rightarrow>
                     if subscriber = 0 then Inr (0, w') else Inr (subscriber, w'))))"

definition get_publisher_count ::
  "('d, 'q, 'f, 'g) node_layer \<Rightarrow> intptr_t \<Rightarrow> ('d, 'q, 'f, 'g) world
     \<Rightarrow> failure + (32 word \<times> ('d, 'q, 'f, 'g) world)" where
  "get_publisher_count nl subscriber_ptr w =
     (if subscriber_ptr = 0 then Inr (0, log_cerr ''subscriber pointer is invalid!'' w)
      else call_count nl subscriber_ptr (Subscriber_get_publisher_count subscriber_ptr) w)"

definition create_timer ::
  "('d, 'q, 'f, 'g) node_layer \<Rightarrow> intptr_t \<Rightarrow> int \<Rightarrow> 'g
     \<Rightarrow> ('d, 'q, 'f, 'g) world \<Rightarrow> failure + (intptr_t \<times> ('d, 'q, 'f, 'g) world)" where
  "create_timer nl node_ptr period_ms callback w =
     (if node_ptr = 0 then Inr (0, log_cerr ''node pointer is invalid!'' w)
      else (case call_pointer nl node_ptr (Node_create_timer node_ptr period_ms callback) w of
              Inl f \<Rightarrow> Inl f
            | Inr (timer, w') \<Rightarrow> if timer = 0 then Inr (0, w') else Inr (timer, w')))"

text \<open>
  \<^verbatim>\<open>rcl_like_wrapper_init\<close> walks through the entries of the map it is given, here the
  list of its entries in the order of the walk, and stores those whose name the registry
  does not have yet.
\<close>

fun register_types :: "(string \<times> 'd) list \<Rightarrow> (string \<rightharpoonup> 'd) \<Rightarrow> (string \<rightharpoonup> 'd)" where
  "register_types [] registry = registry"
| "register_types (type # types) registry =
     register_types types
       (if registry (fst type) = None then registry(fst type \<mapsto> snd type) else registry)"

definition rcl_like_wrapper_init ::
  "(string \<times> 'd) list \<Rightarrow> ('d, 'q, 'f, 'g) world \<Rightarrow> ('d, 'q, 'f, 'g) world" where
  "rcl_like_wrapper_init types w = w\<lparr>message_types := register_types types (message_types w)\<rparr>"

section \<open>Executor\<close>

text \<open>
  An \<^verbatim>\<open>Executor\<close> has the flag \<^verbatim>\<open>running_\<close>, the vector \<^verbatim>\<open>nodes_\<close> of node handles
  and the mutex \<^verbatim>\<open>mutex_\<close>. The functions \<open>add_node\<close>, \<open>remove_node\<close> and \<open>stop\<close> below
  give what the member function of that name does to the flag, the vector and the world
  between taking the mutex and releasing it; the mutex itself follows further down.
\<close>

record Executor =
  running :: bool
  nodes :: "intptr_t list"

definition Executor_ctor :: Executor where
  "Executor_ctor = \<lparr>running = False, nodes = []\<rparr>"

definition add_node ::
  "intptr_t \<Rightarrow> Executor \<times> ('d, 'q, 'f, 'g) world \<Rightarrow> Executor \<times> ('d, 'q, 'f, 'g) world" where
  "add_node node_ptr s =
     (case s of (ex, w) \<Rightarrow>
        if node_ptr \<noteq> 0 then (ex\<lparr>nodes := nodes ex @ [node_ptr]\<rparr>, w)
        else (ex, log_cerr ''Error: Node pointer is null, cannot add to executor.'' w))"

text \<open>
  \<^verbatim>\<open>nodes_.erase(std::remove(nodes_.begin(), nodes_.end(), node_ptr), nodes_.end())\<close>
  keeps the elements that differ from \<^verbatim>\<open>node_ptr\<close>, in their order.
\<close>

definition remove_node :: "intptr_t \<Rightarrow> Executor \<Rightarrow> Executor" where
  "remove_node node_ptr ex = ex\<lparr>nodes := filter (\<lambda>n. n \<noteq> node_ptr) (nodes ex)\<rparr>"

text \<open>The loop over \<^verbatim>\<open>nodes_\<close> in \<^verbatim>\<open>Executor::stop\<close>.\<close>

fun stop_nodes ::
  "intptr_t list \<Rightarrow> ('d, 'q, 'f, 'g) world \<Rightarrow> failure + ('d, 'q, 'f, 'g) world" where
  "stop_nodes [] w = Inr w"
| "stop_nodes (node_ptr # rest) w =
     (if node_ptr = 0 then stop_nodes rest (log_cerr ''node pointer is invalid!'' w)
      else (case stop_spin node_ptr w of
              Inl f \<Rightarrow> Inl f
            | Inr w' \<Rightarrow> stop_nodes rest w'))"

definition stop ::
  "Executor \<times> ('d, 'q, 'f, 'g) world \<Rightarrow> failure + (Executor \<times> ('d, 'q, 'f, 'g) world)" where
  "stop s =
     (case s of (ex, w) \<Rightarrow>
        if running ex
        then (case stop_nodes (nodes ex) w of
                Inl f \<Rightarrow> Inl f
              | Inr w' \<Rightarrow> Inr (ex\<lparr>running := False\<rparr>, w'))
        else Inr (ex, w))"

text \<open>
  The mutex. \<^verbatim>\<open>mutex_\<close> is a \<^verbatim>\<open>std::mutex\<close>, which is not recursive, and every member
  function takes it with a \<^verbatim>\<open>std::lock_guard\<close> for a whole block. A state of the
  executor is therefore a triple: whether the mutex is held, the executor, the world.
  A thread other than the holder that asks for the mutex waits until the block of the
  holder is over, so its block runs as a whole before or after that block: the blocks of
  different threads are steps that follow one another, each starting with the mutex
  free. The only calls that meet a held mutex are those that the holder itself makes
  from inside its block, and such a call never returns (\<open>None\<close>).
\<close>

type_synonym ('d, 'q, 'f, 'g) executor_state = "bool \<times> Executor \<times> ('d, 'q, 'f, 'g) world"

definition lock_guard ::
  "(Executor \<times> ('d, 'q, 'f, 'g) world \<Rightarrow> failure + (Executor \<times> ('d, 'q, 'f, 'g) world))
     \<Rightarrow> ('d, 'q, 'f, 'g) executor_state \<Rightarrow> (failure + ('d, 'q, 'f, 'g) executor_state) option" where
  "lock_guard block s =
     (case s of (locked, ex, w) \<Rightarrow>
        if locked then None
        else (case block (ex, w) of
                Inl f \<Rightarrow> Some (Inl f)
              | Inr (ex', w') \<Rightarrow> Some (Inr (False, ex', w'))))"

text \<open>
  The member functions \<^verbatim>\<open>Executor::add_node\<close>, \<^verbatim>\<open>Executor::remove_node\<close> and
  \<^verbatim>\<open>Executor::stop\<close> as they are called: the first statement of each takes the mutex.
\<close>

datatype executor_call = Call_add_node intptr_t | Call_remove_node intptr_t | Call_stop

definition executor_call ::
  "executor_call \<Rightarrow> ('d, 'q, 'f, 'g) executor_state
     \<Rightarrow> (failure + ('d, 'q, 'f, 'g) executor_state) option" where
  "executor_call c s =
     (case c of
        Call_add_node node_ptr \<Rightarrow> lock_guard (\<lambda>s. Inr (add_node node_ptr s)) s
      | Call_remove_node node_ptr \<Rightarrow> lock_guard (\<lambda>s. Inr (remove_node node_ptr (fst s), snd s)) s
      | Call_stop \<Rightarrow> lock_guard stop s)"

text \<open>
  \<^verbatim>\<open>spin_some\<close> on a node runs the callbacks of the user that are pending on that node
  (inside \<^verbatim>\<open>Node::spin_some\<close>, in \<^verbatim>\<open>node.hpp\<close>), and a callback may call the executor.
  Which calls the callbacks of a node make on this executor, given the calls that have
  reached the node layer so far, is a parameter \<open>callbacks\<close> of the walk. The calls are
  made one after the other on the thread that walks.
\<close>

fun run_calls ::
  "executor_call list \<Rightarrow> ('d, 'q, 'f, 'g) executor_state
     \<Rightarrow> (failure + ('d, 'q, 'f, 'g) executor_state) option" where
  "run_calls [] s = Some (Inr s)"
| "run_calls (c # cs) s =
     (case executor_call c s of
        None \<Rightarrow> None
      | Some (Inl f) \<Rightarrow> Some (Inl f)
      | Some (Inr s') \<Rightarrow> run_calls cs s')"

text \<open>The loop over \<^verbatim>\<open>nodes_\<close> inside the loop of \<^verbatim>\<open>Executor::spin\<close>.\<close>

fun spin_nodes ::
  "(('d, 'q, 'f, 'g) node_call list \<Rightarrow> intptr_t \<Rightarrow> executor_call list) \<Rightarrow> intptr_t list
     \<Rightarrow> ('d, 'q, 'f, 'g) executor_state \<Rightarrow> (failure + ('d, 'q, 'f, 'g) executor_state) option" where
  "spin_nodes callbacks [] s = Some (Inr s)"
| "spin_nodes callbacks (node_ptr # rest) (locked, ex, w) =
     (if node_ptr = 0
      then spin_nodes callbacks rest (locked, ex, log_cerr ''node pointer is invalid!'' w)
      else (case spin_some node_ptr w of
              Inl f \<Rightarrow> Some (Inl f)
            | Inr w' \<Rightarrow>
                (case run_calls (callbacks (calls w') node_ptr) (locked, ex, w') of
                   None \<Rightarrow> None
                 | Some (Inl f) \<Rightarrow> Some (Inl f)
                 | Some (Inr s') \<Rightarrow> spin_nodes callbacks rest s')))"

text \<open>
  \<^verbatim>\<open>Executor::spin\<close> sets \<^verbatim>\<open>running_\<close> and then loops for as long as \<^verbatim>\<open>running_\<close> is set
  and \<^verbatim>\<open>global_stop_flag\<close> is not. Other threads change both, and the list of nodes,
  while the loop runs, so the loop is given by its parts: the entry, the block that walks
  over the nodes with the mutex held, and a whole turn, which is the test of the loop
  condition followed at once by that block. (The constructor also installs the signal
  handler; a failure to install it ends the constructor with an exception and is left out.)
\<close>

definition spin_enter :: "Executor \<Rightarrow> Executor" where
  "spin_enter ex = ex\<lparr>running := True\<rparr>"

definition spin_walk ::
  "(('d, 'q, 'f, 'g) node_call list \<Rightarrow> intptr_t \<Rightarrow> executor_call list)
     \<Rightarrow> ('d, 'q, 'f, 'g) executor_state \<Rightarrow> (failure + ('d, 'q, 'f, 'g) executor_state) option" where
  "spin_walk callbacks s =
     (case s of (locked, ex, w) \<Rightarrow>
        if locked then None
        else (case spin_nodes callbacks (nodes ex) (True, ex, w) of
                None \<Rightarrow> None
              | Some (Inl f) \<Rightarrow> Some (Inl f)
              | Some (Inr (l, ex', w')) \<Rightarrow> Some (Inr (False, ex', w'))))"

definition spin_turn ::
  "(('d, 'q, 'f, 'g) node_call list \<Rightarrow> intptr_t \<Rightarrow> executor_call list)
     \<Rightarrow> ('d, 'q, 'f, 'g) executor_state \<Rightarrow> (failure + ('d, 'q, 'f, 'g) executor_state) option" where
  "spin_turn callbacks s =
     (case s of (locked, ex, w) \<Rightarrow>
        if running ex \<and> \<not> global_stop_flag w then spin_walk callbacks s else Some (Inr s))"

text \<open>
  What threads can do to an executor, one step each, and a sequence of such steps. A turn
  of the loop whose test was made before another thread stepped in is the step
  \<open>Spin_walk\<close>. A step that never returns ends the sequence with \<open>None\<close>.
\<close>

datatype executor_event =
    Add_node intptr_t
  | Remove_node intptr_t
  | Stop
  | Spin_enter
  | Spin_turn
  | Spin_walk
  | Signal int

fun executor_step ::
  "(('d, 'q, 'f, 'g) node_call list \<Rightarrow> intptr_t \<Rightarrow> executor_call list) \<Rightarrow> executor_event
     \<Rightarrow> ('d, 'q, 'f, 'g) executor_state \<Rightarrow> (failure + ('d, 'q, 'f, 'g) executor_state) option" where
  "executor_step callbacks (Add_node p) s = executor_call (Call_add_node p) s"
| "executor_step callbacks (Remove_node p) s = executor_call (Call_remove_node p) s"
| "executor_step callbacks Stop s = executor_call Call_stop s"
| "executor_step callbacks Spin_enter (locked, ex, w) = Some (Inr (locked, spin_enter ex, w))"
| "executor_step callbacks Spin_turn s = spin_turn callbacks s"
| "executor_step callbacks Spin_walk s = spin_walk callbacks s"
| "executor_step callbacks (Signal n) (locked, ex, w) = Some (Inr (locked, ex, signal_handler n w))"

fun executor_run ::
  "(('d, 'q, 'f, 'g) node_call list \<Rightarrow> intptr_t \<Rightarrow> executor_call list) \<Rightarrow> executor_event list
     \<Rightarrow> ('d, 'q, 'f, 'g) executor_state \<Rightarrow> (failure + ('d, 'q, 'f, 'g) executor_state) option" where
  "executor_run callbacks [] s = Some (Inr s)"
| "executor_run callbacks (e # es) s =
     (case executor_step callbacks e s of
        None \<Rightarrow> None
      | Some (Inl f) \<Rightarrow> Some (Inl f)
      | Some (Inr s') \<Rightarrow> executor_run callbacks es s')"

section \<open>Rate\<close>

text \<open>
  \<^verbatim>\<open>Rate\<close> keeps the period, a \<^verbatim>\<open>std::chrono::milliseconds\<close>, and the next wake-up
  instant, a time point of the steady clock. Both are signed 64-bit counts: the period
  counts milliseconds, a time point counts the nanoseconds of the steady clock. A count
  is an integer here, and every addition and multiplication that the code makes on
  64-bit counts is followed by \<open>int64\<close>, which wraps its result into the 64-bit
  two's-complement range, as the machine does when the result does not fit. The clock
  reading \<^verbatim>\<open>now\<close> taken by the constructor and by \<^verbatim>\<open>sleep\<close> is an argument.
\<close>

definition int64 :: "int \<Rightarrow> int" where
  "int64 x = (x + 2 ^ 63) mod 2 ^ 64 - 2 ^ 63"

definition is_int64 :: "int \<Rightarrow> bool" where
  "is_int64 x = (- (2 ^ 63) \<le> x \<and> x < 2 ^ 63)"

text \<open>
  Adding a period to a time point first converts the period to the unit of the time
  point: the count of milliseconds is multiplied by 1000000.
\<close>

definition to_nanoseconds :: "int \<Rightarrow> int" where
  "to_nanoseconds ms = int64 (ms * 1000000)"

record Rate =
  period :: int
  next_time :: int

definition Rate_ctor :: "int \<Rightarrow> int \<Rightarrow> Rate" where
  "Rate_ctor now p = \<lparr>period = p, next_time = int64 (now + to_nanoseconds p)\<rparr>"

text \<open>
  The loop \<^verbatim>\<open>while (now >= next_time_) next_time_ += period_;\<close> of \<^verbatim>\<open>Rate::sleep\<close>.
  Nothing bounds the number of its iterations, so it is a partial function: the value
  \<open>None\<close> stands for a loop that never ends.
\<close>

partial_function (option) catch_up :: "int \<Rightarrow> int \<Rightarrow> int \<Rightarrow> int option" where
  "catch_up now p t =
     (if now \<ge> t then catch_up now p (int64 (t + to_nanoseconds p)) else Some t)"

text \<open>
  \<^verbatim>\<open>Rate::sleep\<close> returns the updated object and the instant it hands to
  \<^verbatim>\<open>std::this_thread::sleep_until\<close>.
\<close>

definition Rate_sleep :: "int \<Rightarrow> Rate \<Rightarrow> (Rate \<times> int) option" where
  "Rate_sleep now r =
     (if now < next_time r then Some (r, next_time r)
      else (case catch_up now (period r) (next_time r) of
              None \<Rightarrow> None
            | Some t \<Rightarrow> Some (r\<lparr>next_time := t\<rparr>, t)))"

text \<open>A caller that sleeps again and again, reading the clock values \<open>nows\<close> in turn.\<close>

fun Rate_sleep_loop :: "int list \<Rightarrow> Rate \<Rightarrow> Rate option" where
  "Rate_sleep_loop [] r = Some r"
| "Rate_sleep_loop (now # nows) r =
     (case Rate_sleep now r of None \<Rightarrow> None | Some (r', t) \<Rightarrow> Rate_sleep_loop nows r')"

section \<open>The listener of a subscription and its dispatch closure\<close>

text \<open>
  \<^verbatim>\<open>SubscriberListener<T>\<close> of \<^verbatim>\<open>subscriber.hpp\<close> owns the buffer
  \<^verbatim>\<open>message_ptr_buffer_\<close> and one dispatch closure, \<^verbatim>\<open>subscription_callback_\<close>, and
  refers to the queue \<^verbatim>\<open>channel_\<close> of its node. The queue holds pointers to closures;
  the only closure this listener ever puts there is its own.
\<close>

datatype ChannelCallback = Subscription_callback

text \<open>
  The record holds what one subscription can see: the members of the listener, the state
  \<open>user\<close> that the user's callback works on, the messages \<open>invoked\<close> that the user's
  callback has been called with so far (oldest first), and the lines written to
  \<^verbatim>\<open>std::cerr\<close>. The transport thread and the spinning thread act on it one step at a
  time.
\<close>

record ('m, 'u) subscription =
  count :: "32 word"
  message_ptr_buffer :: "'m list"
  channel :: "ChannelCallback list"
  user :: 'u
  invoked :: "'m list"
  cerr_lines :: "string list"

text \<open>
  The user's callback \<^verbatim>\<open>callback_function_\<close> gets a message and the user's state; it
  returns normally (\<open>None\<close>) or throws (\<open>Some e\<close>), and leaves a user's state either way.
\<close>

type_synonym ('m, 'u) callback_function = "'m \<Rightarrow> 'u \<Rightarrow> exn option \<times> 'u"

definition SubscriberListener_ctor :: "'u \<Rightarrow> ('m, 'u) subscription" where
  "SubscriberListener_ctor u =
     \<lparr>count = 0, message_ptr_buffer = [], channel = [], user = u, invoked = [],
      cerr_lines = []\<rparr>"

definition on_subscription_matched ::
  "32 word \<Rightarrow> ('m, 'u) subscription \<Rightarrow> ('m, 'u) subscription" where
  "on_subscription_matched current_count s = s\<lparr>count := current_count\<rparr>"

definition get_publisher_count_of :: "('m, 'u) subscription \<Rightarrow> 32 word" where
  "get_publisher_count_of s = count s"

text \<open>
  \<^verbatim>\<open>on_data_available\<close>: \<open>retcode_ok\<close> says that \<^verbatim>\<open>take_next_sample\<close> returned
  \<^verbatim>\<open>RETCODE_OK\<close>, \<open>valid_data\<close> is the flag of the sample info, \<open>temp_instance\<close> the
  sample taken.
\<close>

definition on_data_available ::
  "bool \<Rightarrow> bool \<Rightarrow> 'm \<Rightarrow> ('m, 'u) subscription \<Rightarrow> ('m, 'u) subscription" where
  "on_data_available retcode_ok valid_data temp_instance s =
     (if retcode_ok \<and> valid_data
      then s\<lparr>message_ptr_buffer := message_ptr_buffer s @ [temp_instance],
             channel := channel s @ [Subscription_callback]\<rparr>
      else s)"

text \<open>
  The \<^verbatim>\<open>try\<close> block of \<^verbatim>\<open>SubscriptionCallback::invoke\<close>. When the user's callback
  throws, control leaves the block before \<^verbatim>\<open>erase\<close>.
\<close>

definition invoke_try ::
  "('m, 'u) callback_function \<Rightarrow> ('m, 'u) subscription \<Rightarrow> exn option \<times> ('m, 'u) subscription" where
  "invoke_try callback_function s =
     (case message_ptr_buffer s of
        [] \<Rightarrow> (None, s\<lparr>cerr_lines := cerr_lines s @ [''Error: Vector is empty'']\<rparr>)
      | front # rest \<Rightarrow>
          (case callback_function front (user s) of
             (None, u) \<Rightarrow>
               (None, s\<lparr>user := u, invoked := invoked s @ [front], message_ptr_buffer := rest\<rparr>)
           | (Some e, u) \<Rightarrow>
               (Some e, s\<lparr>user := u, invoked := invoked s @ [front]\<rparr>)))"

text \<open>\<^verbatim>\<open>SubscriptionCallback::invoke\<close>: the \<^verbatim>\<open>try\<close> block and its two handlers.\<close>

definition invoke ::
  "('m, 'u) callback_function \<Rightarrow> ('m, 'u) subscription \<Rightarrow> exn option \<times> ('m, 'u) subscription" where
  "invoke callback_function s =
     (case invoke_try callback_function s of
        (None, s') \<Rightarrow> (None, s')
      | (Some (Std_exception what), s') \<Rightarrow>
          (None, s'\<lparr>cerr_lines := cerr_lines s' @ [''Exception during callback invocation: '' @ what]\<rparr>)
      | (Some Unknown_exception, s') \<Rightarrow>
          (None, s'\<lparr>cerr_lines := cerr_lines s' @ [''Unknown exception during callback invocation.'']\<rparr>))"

text \<open>
  The constructor of \<^verbatim>\<open>Subscriber<T>\<close>. What the domain participant answers to the
  calls of the constructor is given: whether \<^verbatim>\<open>register_type\<close> returned
  \<^verbatim>\<open>RETCODE_OK\<close>, the topic found by \<^verbatim>\<open>lookup_topicdescription\<close> and cast to
  \<^verbatim>\<open>Topic*\<close>, and the pointers returned by \<^verbatim>\<open>create_topic\<close>, \<^verbatim>\<open>create_subscriber\<close>
  and \<^verbatim>\<open>create_datareader\<close> (0 for a null pointer). The constructor either throws,
  after the deletions listed with the exception, or leaves an object with the three
  pointers.
\<close>

record participant_answers =
  register_type_ok :: bool
  retrieved_topic :: intptr_t
  created_topic :: intptr_t
  created_subscriber :: intptr_t
  created_datareader :: intptr_t

datatype participant_call = Delete_topic intptr_t | Delete_subscriber intptr_t

record Subscriber_members =
  the_topic :: intptr_t
  the_subscriber :: intptr_t
  the_reader :: intptr_t

definition Subscriber_ctor ::
  "participant_answers \<Rightarrow> (exn \<times> participant_call list) + Subscriber_members" where
  "Subscriber_ctor a =
     (if \<not> register_type_ok a
      then Inl (Std_exception ''Failed to register message type'', [])
      else if retrieved_topic a = 0 \<and> created_topic a = 0
      then Inl (Std_exception ''Failed to create topic'', [])
      else (let t = (if retrieved_topic a = 0 then created_topic a else retrieved_topic a) in
        if created_subscriber a = 0
        then Inl (Std_exception ''Failed to create subscriber'', [Delete_topic t])
        else if created_datareader a = 0
        then Inl (Std_exception ''Failed to create datareader'',
                  [Delete_subscriber (created_subscriber a), Delete_topic t])
        else Inr \<lparr>the_topic = t, the_subscriber = created_subscriber a,
                  the_reader = created_datareader a\<rparr>))"

text \<open>
  Modelled from the spec: the consumer of the queue is \<^verbatim>\<open>Node\<close> (\<^verbatim>\<open>node.hpp\<close>) over
  \<^verbatim>\<open>Channel\<close> (\<^verbatim>\<open>channel.hpp\<close>), neither among the sources. By the spec, the queue is a
  FIFO; consuming one closure removes the oldest one and invokes it, and draining removes
  and invokes, in that order, every closure present at the moment of the call. An
  exception that leaves a closure would end the drain.
\<close>

definition dispatch_one ::
  "('m, 'u) callback_function \<Rightarrow> ('m, 'u) subscription \<Rightarrow> exn option \<times> ('m, 'u) subscription" where
  "dispatch_one callback_function s =
     (case channel s of
        [] \<Rightarrow> (None, s)
      | c # rest \<Rightarrow> invoke callback_function (s\<lparr>channel := rest\<rparr>))"

fun dispatch_n ::
  "nat \<Rightarrow> ('m, 'u) callback_function \<Rightarrow> ('m, 'u) subscription
     \<Rightarrow> exn option \<times> ('m, 'u) subscription" where
  "dispatch_n 0 callback_function s = (None, s)"
| "dispatch_n (Suc n) callback_function s =
     (case dispatch_one callback_function s of
        (None, s') \<Rightarrow> dispatch_n n callback_function s'
      | (Some e, s') \<Rightarrow> (Some e, s'))"

definition drain_available ::
  "('m, 'u) callback_function \<Rightarrow> ('m, 'u) subscription \<Rightarrow> exn option \<times> ('m, 'u) subscription" where
  "drain_available callback_function s = dispatch_n (length (channel s)) callback_function s"

text \<open>
  What happens to a subscription, one step each: the transport hands over a sample, or
  the spinning thread consumes one closure, or it drains the queue.
\<close>

datatype 'm subscription_event =
    Data_available bool bool 'm
  | Dispatch_one
  | Drain_available

fun subscription_step ::
  "('m, 'u) callback_function \<Rightarrow> 'm subscription_event \<Rightarrow> ('m, 'u) subscription
     \<Rightarrow> exn option \<times> ('m, 'u) subscription" where
  "subscription_step callback_function (Data_available retcode_ok valid_data m) s =
     (None, on_data_available retcode_ok valid_data m s)"
| "subscription_step callback_function Dispatch_one s = dispatch_one callback_function s"
| "subscription_step callback_function Drain_available s = drain_available callback_function s"

fun subscription_run ::
  "('m, 'u) callback_function \<Rightarrow> 'm subscription_event list \<Rightarrow> ('m, 'u) subscription
     \<Rightarrow> exn option \<times> ('m, 'u) subscription" where
  "subscription_run callback_function [] s = (None, s)"
| "subscription_run callback_function (e # es) s =
     (case subscription_step callback_function e s of
        (None, s') \<Rightarrow> subscription_run callback_function es s'
      | (Some x, s') \<Rightarrow> (Some x, s'))"

text \<open>The messages that a sequence of events delivers, in the order of their arrival.\<close>

fun delivered :: "'m subscription_event list \<Rightarrow> 'm list" where
  "delivered [] = []"
| "delivered (Data_available retcode_ok valid_data m # es) =
     (if retcode_ok \<and> valid_data then m # delivered es else delivered es)"
| "delivered (Dispatch_one # es) = delivered es"
| "delivered (Drain_available # es) = delivered es"

section \<open>Sample node layers, worlds and callbacks\<close>

text \<open>
  Concrete values on which the properties below are run: a node layer that has no memory
  left, one that returns a null pointer from every creating call, and one that returns a
  new object each time; a world with an empty registry and one in which the type
  \<^verbatim>\<open>Ping\<close> is registered; a callback that counts its calls and one that always
  throws; a subscription that has received the messages 1 and 2; callbacks that do not
  call the executor, and callbacks that remove their node from the executor.
\<close>

definition no_memory :: "(nat, unit, unit, unit) node_layer" where
  "no_memory =
     \<lparr>returned_pointer = (\<lambda>cs c. Inl (Std_exception ''std::bad_alloc'')),
      returned_count = (\<lambda>cs c. 0)\<rparr>"

definition no_objects :: "(nat, unit, unit, unit) node_layer" where
  "no_objects = \<lparr>returned_pointer = (\<lambda>cs c. Inr 0), returned_count = (\<lambda>cs c. 0)\<rparr>"

definition new_objects :: "(nat, unit, unit, unit) node_layer" where
  "new_objects =
     \<lparr>returned_pointer = (\<lambda>cs c. Inr (4096 + 64 * of_nat (length cs))),
      returned_count = (\<lambda>cs c. 1)\<rparr>"

definition empty_world :: "(nat, unit, unit, unit) world" where
  "empty_world = \<lparr>cerr = [], message_types = Map.empty, global_stop_flag = False, calls = []\<rparr>"

definition Ping_world :: "(nat, unit, unit, unit) world" where
  "Ping_world = rcl_like_wrapper_init [(''Ping'', 7)] empty_world"

definition counting_callback :: "(nat, nat) callback_function" where
  "counting_callback m u = (None, Suc u)"

definition throwing_callback :: "(nat, nat) callback_function" where
  "throwing_callback m u = (Some (Std_exception ''boom''), u)"

definition two_messages :: "(nat, nat) subscription" where
  "two_messages =
     on_data_available True True 2 (on_data_available True True 1 (SubscriberListener_ctor 0))"

definition no_callbacks ::
  "(nat, unit, unit, unit) node_call list \<Rightarrow> intptr_t \<Rightarrow> executor_call list" where
  "no_callbacks cs node_ptr = []"

definition removing_callbacks ::
  "(nat, unit, unit, unit) node_call list \<Rightarrow> intptr_t \<Rightarrow> executor_call list" where
  "removing_callbacks cs node_ptr = [Call_remove_node node_ptr]"

chapter \<open>Properties\<close>

section \<open>Properties of the handle API\<close>

subsection \<open>A zero handle\<close>

lemma log_cerr_fields:
  "cerr (log_cerr l w) = cerr w @ [l]"
  "calls (log_cerr l w) = calls w"
  "message_types (log_cerr l w) = message_types w"
  "global_stop_flag (log_cerr l w) = global_stop_flag w"
  by (simp_all add: log_cerr_def)

text \<open>
  Ten of the eleven functions that take a handle test it first: with the handle 0 they
  write a line to \<^verbatim>\<open>std::cerr\<close>, make no call on any object and return (0 where a value
  is returned).
\<close>

lemma zero_handle_rejected:
  "spin 0 w = Inr (log_cerr ''node pointer is invalid!'' w)"
  "spin_once 0 w = Inr (log_cerr ''node pointer is invalid!'' w)"
  "spin_some 0 w = Inr (log_cerr ''node pointer is invalid!'' w)"
  "stop_spin 0 w = Inr (log_cerr ''node pointer is invalid!'' w)"
  "create_publisher nl 0 name topic qos w = Inr (0, log_cerr ''node pointer is invalid!'' w)"
  "create_subscription nl 0 name topic qos cb w = Inr (0, log_cerr ''node pointer is invalid!'' w)"
  "create_timer nl 0 ms tcb w = Inr (0, log_cerr ''node pointer is invalid!'' w)"
  "publish 0 msg w = Inr (log_cerr ''publisher pointer is invalid!'' w)"
  "get_subscriber_count nl 0 w = Inr (0, log_cerr ''publisher pointer is invalid!'' w)"
  "get_publisher_count nl 0 w = Inr (0, log_cerr ''subscriber pointer is invalid!'' w)"
  by (simp_all add: spin_def spin_once_def spin_some_def stop_spin_def create_publisher_def
      create_subscription_def create_timer_def publish_def get_subscriber_count_def
      get_publisher_count_def)

text \<open>
  Claim C1 at \<^verbatim>\<open>destroy_node\<close>. The eleventh function has no such test: with the handle 0
  it calls \<^verbatim>\<open>destroy\<close> through the null pointer, whatever the world is, and writes
  nothing.
\<close>

theorem destroy_node_null_handle: "destroy_node 0 w = Inl Null_dereference"
  by (simp add: destroy_node_def call_void_def)

subsection \<open>Creating objects\<close>

lemma new_Node_cases:
  "new_Node nl domain_id w =
     (case returned_pointer nl (calls w) (New_Node domain_id) of
        Inl e \<Rightarrow> Inl (Uncaught e)
      | Inr p \<Rightarrow>
          if p = 0 then Inl (Uncaught (Std_exception ''std::bad_alloc''))
          else Inr (p, w\<lparr>calls := calls w @ [New_Node domain_id]\<rparr>))"
  by (simp add: new_Node_def)

lemma create_node_allocated:
  assumes "returned_pointer nl (calls w) (New_Node domain_id) = Inr p" "p \<noteq> 0"
  shows "create_node nl domain_id w = Inr (p, w\<lparr>calls := calls w @ [New_Node domain_id]\<rparr>)"
  using assms by (simp add: create_node_def new_Node_cases)

text \<open>
  Claim C10. \<^verbatim>\<open>create_node\<close> never returns 0, whatever the domain id, the node layer
  and the world: either an exception leaves it, or it returns the non-zero address of
  the new node. The branch \<^verbatim>\<open>return 0\<close> is never taken.
\<close>

theorem create_node_never_returns_sentinel:
  "create_node nl domain_id w \<noteq> Inr (0, w')
   \<and> ((\<exists>e. create_node nl domain_id w = Inl (Uncaught e))
      \<or> (\<exists>node. node \<noteq> 0
            \<and> create_node nl domain_id w
                = Inr (node, w\<lparr>calls := calls w @ [New_Node domain_id]\<rparr>)))"
proof (cases "returned_pointer nl (calls w) (New_Node domain_id)")
  case (Inl e)
  then have "create_node nl domain_id w = Inl (Uncaught e)"
    by (simp add: create_node_def new_Node_cases)
  then show ?thesis by simp
next
  case (Inr p)
  show ?thesis
  proof (cases "p = 0")
    case True
    with Inr have "create_node nl domain_id w = Inl (Uncaught (Std_exception ''std::bad_alloc''))"
      by (simp add: create_node_def new_Node_cases)
    then show ?thesis by simp
  next
    case False
    with Inr have "create_node nl domain_id w
                     = Inr (p, w\<lparr>calls := calls w @ [New_Node domain_id]\<rparr>)"
      by (simp add: create_node_def new_Node_cases)
    with False show ?thesis by auto
  qed
qed

lemma call_pointer_returned:
  "node_ptr \<noteq> 0 \<Longrightarrow> returned_pointer nl (calls w) c = Inr p \<Longrightarrow>
     call_pointer nl node_ptr c w = Inr (p, w\<lparr>calls := calls w @ [c]\<rparr>)"
  by (simp add: call_pointer_def)

lemma create_publisher_returned:
  assumes "node_ptr \<noteq> 0" "message_types w name = Some mt"
    and "returned_pointer nl (calls w) (Node_create_publisher node_ptr mt (''rt/'' @ topic) qos) = Inr p"
  shows "create_publisher nl node_ptr name topic qos w
           = Inr (p, w\<lparr>calls := calls w @ [Node_create_publisher node_ptr mt (''rt/'' @ topic) qos]\<rparr>)"
  using assms by (simp add: create_publisher_def call_pointer_returned)

lemma create_subscription_returned:
  assumes "node_ptr \<noteq> 0" "message_types w name = Some mt"
    and "returned_pointer nl (calls w)
           (Node_create_subscription node_ptr mt (''rt/'' @ topic) qos cb) = Inr p"
  shows "create_subscription nl node_ptr name topic qos cb w
           = Inr (p, w\<lparr>calls := calls w
                          @ [Node_create_subscription node_ptr mt (''rt/'' @ topic) qos cb]\<rparr>)"
  using assms by (simp add: create_subscription_def call_pointer_returned)

lemma create_timer_returned:
  assumes "node_ptr \<noteq> 0"
    and "returned_pointer nl (calls w) (Node_create_timer node_ptr ms tcb) = Inr p"
  shows "create_timer nl node_ptr ms tcb w
           = Inr (p, w\<lparr>calls := calls w @ [Node_create_timer node_ptr ms tcb]\<rparr>)"
  using assms by (simp add: create_timer_def call_pointer_returned)

lemma unregistered_type:
  assumes "node_ptr \<noteq> 0" "message_types w name = None"
  shows "create_publisher nl node_ptr name topic qos w = Inr (0, w)"
    and "create_subscription nl node_ptr name topic qos cb w = Inr (0, w)"
  using assms by (simp_all add: create_publisher_def create_subscription_def)

text \<open>
  Claim C4, for the calls in which nothing throws. When the node is allocated,
  \<^verbatim>\<open>create_node\<close> returns its address, a non-zero handle, and writes nothing.
  \<^verbatim>\<open>create_publisher\<close>, \<^verbatim>\<open>create_subscription\<close> and \<^verbatim>\<open>create_timer\<close> return 0 and
  write a line to \<^verbatim>\<open>std::cerr\<close> when the node handle is 0; with a non-zero node handle
  they return 0, and write nothing, when the name of the message type is not registered;
  and when the call on the node returns a pointer \<open>p\<close> they return \<open>p\<close>, which is 0 for
  a null pointer and the non-zero handle of the new object otherwise, and write nothing
  either. What the functions do when the allocation or the call on the node throws is
  not part of the statement.
\<close>

theorem create_returns_handle_or_sentinel:
  "(\<forall>p. returned_pointer nl (calls w) (New_Node domain_id) = Inr p \<and> p \<noteq> 0 \<longrightarrow>
        create_node nl domain_id w
          = Inr (p, w\<lparr>calls := calls w @ [New_Node domain_id]\<rparr>))
   \<and> create_publisher nl 0 name topic qos w = Inr (0, log_cerr ''node pointer is invalid!'' w)
   \<and> create_subscription nl 0 name topic qos cb w = Inr (0, log_cerr ''node pointer is invalid!'' w)
   \<and> create_timer nl 0 ms tcb w = Inr (0, log_cerr ''node pointer is invalid!'' w)
   \<and> (node_ptr \<noteq> 0 \<and> message_types w name = None \<longrightarrow>
        create_publisher nl node_ptr name topic qos w = Inr (0, w)
        \<and> create_subscription nl node_ptr name topic qos cb w = Inr (0, w))
   \<and> (\<forall>mt p. node_ptr \<noteq> 0 \<and> message_types w name = Some mt
          \<and> returned_pointer nl (calls w)
               (Node_create_publisher node_ptr mt (''rt/'' @ topic) qos) = Inr p \<longrightarrow>
        create_publisher nl node_ptr name topic qos w
          = Inr (p, w\<lparr>calls := calls w
                         @ [Node_create_publisher node_ptr mt (''rt/'' @ topic) qos]\<rparr>))
   \<and> (\<forall>mt p. node_ptr \<noteq> 0 \<and> message_types w name = Some mt
          \<and> returned_pointer nl (calls w)
               (Node_create_subscription node_ptr mt (''rt/'' @ topic) qos cb) = Inr p \<longrightarrow>
        create_subscription nl node_ptr name topic qos cb w
          = Inr (p, w\<lparr>calls := calls w
                         @ [Node_create_subscription node_ptr mt (''rt/'' @ topic) qos cb]\<rparr>))
   \<and> (\<forall>p. node_ptr \<noteq> 0
          \<and> returned_pointer nl (calls w) (Node_create_timer node_ptr ms tcb) = Inr p \<longrightarrow>
        create_timer nl node_ptr ms tcb w
          = Inr (p, w\<lparr>calls := calls w @ [Node_create_timer node_ptr ms tcb]\<rparr>))"
proof (intro conjI allI impI)
  show "create_node nl domain_id w
          = Inr (p, w\<lparr>calls := calls w @ [New_Node domain_id]\<rparr>)"
    if "returned_pointer nl (calls w) (New_Node domain_id) = Inr p \<and> p \<noteq> 0" for p
    using that by (simp add: create_node_allocated)
  show "create_publisher nl 0 name topic qos w = Inr (0, log_cerr ''node pointer is invalid!'' w)"
    by (rule zero_handle_rejected)
  show "create_subscription nl 0 name topic qos cb w
          = Inr (0, log_cerr ''node pointer is invalid!'' w)"
    by (rule zero_handle_rejected)
  show "create_timer nl 0 ms tcb w = Inr (0, log_cerr ''node pointer is invalid!'' w)"
    by (rule zero_handle_rejected)
  show "create_publisher nl node_ptr name topic qos w = Inr (0, w)"
    if "node_ptr \<noteq> 0 \<and> message_types w name = None"
    using that by (simp add: unregistered_type)
  show "create_subscription nl node_ptr name topic qos cb w = Inr (0, w)"
    if "node_ptr \<noteq> 0 \<and> message_types w name = None"
    using that by (simp add: unregistered_type)
  show "create_publisher nl node_ptr name topic qos w
          = Inr (p, w\<lparr>calls := calls w
                         @ [Node_create_publisher node_ptr mt (''rt/'' @ topic) qos]\<rparr>)"
    if "node_ptr \<noteq> 0 \<and> message_types w name = Some mt
          \<and> returned_pointer nl (calls w)
               (Node_create_publisher node_ptr mt (''rt/'' @ topic) qos) = Inr p" for mt p
    using that by (simp add: create_publisher_returned)
  show "create_subscription nl node_ptr name topic qos cb w
          = Inr (p, w\<lparr>calls := calls w
                         @ [Node_create_subscription node_ptr mt (''rt/'' @ topic) qos cb]\<rparr>)"
    if "node_ptr \<noteq> 0 \<and> message_types w name = Some mt
          \<and> returned_pointer nl (calls w)
               (Node_create_subscription node_ptr mt (''rt/'' @ topic) qos cb) = Inr p" for mt p
    using that by (simp add: create_subscription_returned)
  show "create_timer nl node_ptr ms tcb w
          = Inr (p, w\<lparr>calls := calls w @ [Node_create_timer node_ptr ms tcb]\<rparr>)"
    if "node_ptr \<noteq> 0
          \<and> returned_pointer nl (calls w) (Node_create_timer node_ptr ms tcb) = Inr p" for p
    using that by (simp add: create_timer_returned)
qed

lemma Ping_world_eq:
  "Ping_world = \<lparr>cerr = [], message_types = [''Ping'' \<mapsto> 7], global_stop_flag = False, calls = []\<rparr>"
  by (simp add: Ping_world_def empty_world_def rcl_like_wrapper_init_def)

text \<open>
  The theorem on the sample worlds: a node is created; a subscription of the
  unregistered type \<^verbatim>\<open>Pong\<close> is refused; a subscription of \<^verbatim>\<open>Ping\<close> and a timer are
  created; a publisher that the node cannot create comes back as 0.
\<close>

theorem create_returns_handle_or_sentinel_witness:
  "create_node new_objects 0 Ping_world = Inr (4096, Ping_world\<lparr>calls := [New_Node 0]\<rparr>)
   \<and> create_subscription new_objects 4096 ''Pong'' ''pong'' () () Ping_world = Inr (0, Ping_world)
   \<and> create_subscription new_objects 4096 ''Ping'' ''ping'' () () Ping_world
       = Inr (4096, Ping_world\<lparr>calls := [Node_create_subscription 4096 7 ''rt/ping'' () ()]\<rparr>)
   \<and> create_publisher no_objects 4096 ''Ping'' ''ping'' () Ping_world
       = Inr (0, Ping_world\<lparr>calls := [Node_create_publisher 4096 7 ''rt/ping'' ()]\<rparr>)
   \<and> create_timer new_objects 4096 100 () Ping_world
       = Inr (4096, Ping_world\<lparr>calls := [Node_create_timer 4096 100 ()]\<rparr>)"
proof -
  have r: "message_types Ping_world ''Ping'' = Some 7" "message_types Ping_world ''Pong'' = None"
     "calls Ping_world = []"
    by (simp_all add: Ping_world_eq)
  have p: "returned_pointer new_objects [] c = Inr 4096" "returned_pointer no_objects [] c = Inr 0" for c
    by (simp_all add: new_objects_def no_objects_def)
  have nz: "(4096 :: intptr_t) \<noteq> 0" by simp
  note t = create_returns_handle_or_sentinel
  from t [of new_objects Ping_world 0 "''Pong''" "''pong''" "()" "()" 100 "()" 4096] nz r p
  have a: "create_node new_objects 0 Ping_world = Inr (4096, Ping_world\<lparr>calls := [New_Node 0]\<rparr>)"
    by simp
  from t [of new_objects Ping_world 0 "''Pong''" "''pong''" "()" "()" 100 "()" 4096] nz r
  have b: "create_subscription new_objects 4096 ''Pong'' ''pong'' () () Ping_world = Inr (0, Ping_world)"
    by blast
  from t [of new_objects Ping_world 0 "''Ping''" "''ping''" "()" "()" 100 "()" 4096] nz r p
  have c: "create_subscription new_objects 4096 ''Ping'' ''ping'' () () Ping_world
       = Inr (4096, Ping_world\<lparr>calls := [Node_create_subscription 4096 7 ''rt/ping'' () ()]\<rparr>)"
    and e: "create_timer new_objects 4096 100 () Ping_world
       = Inr (4096, Ping_world\<lparr>calls := [Node_create_timer 4096 100 ()]\<rparr>)"
    by simp_all
  from t [of no_objects Ping_world 0 "''Ping''" "''ping''" "()" "()" 100 "()" 4096] nz r p
  have d: "create_publisher no_objects 4096 ''Ping'' ''ping'' () Ping_world
       = Inr (0, Ping_world\<lparr>calls := [Node_create_publisher 4096 7 ''rt/ping'' ()]\<rparr>)"
    by simp
  from a b c d e show ?thesis by blast
qed

text \<open>
  Two runs that the claim as written excludes. When no memory is left, \<^verbatim>\<open>create_node\<close>
  does not return 0: the exception \<^verbatim>\<open>std::bad_alloc\<close> leaves it. When the node returns a
  null subscriber, \<^verbatim>\<open>create_subscription\<close> returns 0 and nothing is written to
  \<^verbatim>\<open>std::cerr\<close>.
\<close>

theorem create_node_throws_and_null_object_is_silent:
  "create_node no_memory 0 Ping_world = Inl (Uncaught (Std_exception ''std::bad_alloc''))
   \<and> create_subscription no_objects 4096 ''Ping'' ''ping'' () () Ping_world
       = Inr (0, \<lparr>cerr = [], message_types = [''Ping'' \<mapsto> 7], global_stop_flag = False,
                  calls = [Node_create_subscription 4096 7 ''rt/ping'' () ()]\<rparr>)"
  by (simp add: create_node_def new_Node_def no_memory_def Ping_world_eq
      create_subscription_def call_pointer_def no_objects_def)

subsection \<open>A message type that is not registered\<close>

text \<open>
  Claim C6. With a name that the registry does not have, \<^verbatim>\<open>create_subscription\<close>
  returns 0 for every node handle, topic, QoS, callback and node layer; no call reaches
  the node layer, and the registry is as before. With a non-zero node handle nothing
  changes at all; with the node handle 0 the only change is the line on \<^verbatim>\<open>std::cerr\<close>.
\<close>

theorem create_subscription_unregistered_type:
  assumes "message_types w message_type_name = None"
  shows "\<exists>w'. create_subscription nl node_ptr message_type_name topic qos callback w = Inr (0, w')
           \<and> calls w' = calls w \<and> message_types w' = message_types w
           \<and> global_stop_flag w' = global_stop_flag w
           \<and> w' = (if node_ptr = 0 then log_cerr ''node pointer is invalid!'' w else w)"
proof (cases "node_ptr = 0")
  case True
  then have "create_subscription nl node_ptr message_type_name topic qos callback w
               = Inr (0, log_cerr ''node pointer is invalid!'' w)"
    by (simp add: zero_handle_rejected)
  with True show ?thesis by (simp add: log_cerr_fields)
next
  case False
  then have "create_subscription nl node_ptr message_type_name topic qos callback w = Inr (0, w)"
    using assms by (simp add: unregistered_type)
  with False show ?thesis by simp
qed

theorem create_subscription_unregistered_type_witness:
  "message_types Ping_world ''Pong'' = None
   \<and> create_subscription new_objects 4096 ''Pong'' ''pong'' () () Ping_world = Inr (0, Ping_world)
   \<and> create_subscription new_objects 0 ''Pong'' ''pong'' () () Ping_world
       = Inr (0, Ping_world\<lparr>cerr := [''node pointer is invalid!'']\<rparr>)"
proof -
  have r: "message_types Ping_world ''Pong'' = None" by (simp add: Ping_world_eq)
  have l: "log_cerr ''node pointer is invalid!'' Ping_world
             = Ping_world\<lparr>cerr := [''node pointer is invalid!'']\<rparr>"
    by (simp add: log_cerr_def Ping_world_eq)
  from create_subscription_unregistered_type [OF r, of new_objects 4096 "''pong''" "()" "()"]
  have a: "create_subscription new_objects 4096 ''Pong'' ''pong'' () () Ping_world = Inr (0, Ping_world)"
    by auto
  from create_subscription_unregistered_type [OF r, of new_objects 0 "''pong''" "()" "()"]
  have b: "create_subscription new_objects 0 ''Pong'' ''pong'' () () Ping_world
       = Inr (0, Ping_world\<lparr>cerr := [''node pointer is invalid!'']\<rparr>)"
    by (auto simp add: l)
  from r a b show ?thesis by blast
qed

subsection \<open>Registering message types\<close>

lemma register_types_eq: "register_types types registry = map_of types ++ registry"
proof (induction types arbitrary: registry)
  case Nil
  then show ?case by simp
next
  case (Cons t types)
  show ?case
  proof (rule ext)
    fix k
    show "register_types (t # types) registry k = (map_of (t # types) ++ registry) k"
      by (cases t) (auto simp add: Cons.IH map_add_def split: option.splits)
  qed
qed

text \<open>
  Claim C9. The argument of \<^verbatim>\<open>rcl_like_wrapper_init\<close> is a map, so each name occurs in
  one entry. After the call, a name that was registered has the descriptor it had; a
  name that was not registered and has an entry has the descriptor of its entry; a name
  with neither is still not registered. No name leaves the registry, and the rest of
  the world is untouched.
\<close>

theorem rcl_like_wrapper_init_additive:
  assumes "distinct (map fst types)"
  shows "(\<forall>name d. message_types w name = Some d \<longrightarrow>
            message_types (rcl_like_wrapper_init types w) name = Some d)
   \<and> (\<forall>name d. message_types w name = None \<and> (name, d) \<in> set types \<longrightarrow>
            message_types (rcl_like_wrapper_init types w) name = Some d)
   \<and> (\<forall>name. message_types w name = None \<and> name \<notin> fst ` set types \<longrightarrow>
            message_types (rcl_like_wrapper_init types w) name = None)
   \<and> dom (message_types w) \<subseteq> dom (message_types (rcl_like_wrapper_init types w))
   \<and> cerr (rcl_like_wrapper_init types w) = cerr w
   \<and> calls (rcl_like_wrapper_init types w) = calls w
   \<and> global_stop_flag (rcl_like_wrapper_init types w) = global_stop_flag w"
proof -
  have m: "message_types (rcl_like_wrapper_init types w) = map_of types ++ message_types w"
    by (simp add: rcl_like_wrapper_init_def register_types_eq)
  have "(map_of types ++ message_types w) name = Some d" if "message_types w name = Some d" for name d
    using that by (simp add: map_add_Some_iff)
  moreover have "(map_of types ++ message_types w) name = Some d"
    if "message_types w name = None \<and> (name, d) \<in> set types" for name d
    using that assms by (simp add: map_add_Some_iff)
  moreover have "(map_of types ++ message_types w) name = None"
    if "message_types w name = None \<and> name \<notin> fst ` set types" for name
    using that by (simp add: map_add_None map_of_eq_None_iff)
  moreover have "dom (message_types w) \<subseteq> dom (map_of types ++ message_types w)"
    by auto
  ultimately show ?thesis unfolding m by (simp add: rcl_like_wrapper_init_def)
qed

theorem rcl_like_wrapper_init_additive_witness:
  "distinct (map fst [(''Ping'', 1::nat), (''Pong'', 2)])
   \<and> message_types (rcl_like_wrapper_init [(''Ping'', 1), (''Pong'', 2)] Ping_world) ''Ping'' = Some 7
   \<and> message_types (rcl_like_wrapper_init [(''Ping'', 1), (''Pong'', 2)] Ping_world) ''Pong'' = Some 2
   \<and> message_types (rcl_like_wrapper_init [(''Ping'', 1), (''Pong'', 2)] Ping_world) ''Pang'' = None"
proof -
  have d: "distinct (map fst [(''Ping'', 1::nat), (''Pong'', 2)])" by simp
  have r: "message_types Ping_world ''Ping'' = Some 7" "message_types Ping_world ''Pong'' = None"
     "message_types Ping_world ''Pang'' = None"
    by (simp_all add: Ping_world_eq)
  have s: "(''Pong'', 2::nat) \<in> set [(''Ping'', 1), (''Pong'', 2)]"
     "''Pang'' \<notin> fst ` set [(''Ping'', 1::nat), (''Pong'', 2)]"
    by simp_all
  from rcl_like_wrapper_init_additive [OF d, of Ping_world] r s d show ?thesis by blast
qed

section \<open>Properties of the Executor\<close>

subsection \<open>Walking over the nodes\<close>

lemma stop_spin_live:
  "p \<noteq> 0 \<Longrightarrow> stop_spin p w = Inr (w\<lparr>calls := calls w @ [Node_stop_spin p]\<rparr>)"
  by (simp add: stop_spin_def call_void_def)

lemma spin_some_live:
  "p \<noteq> 0 \<Longrightarrow> spin_some p w = Inr (w\<lparr>calls := calls w @ [Node_spin_some p]\<rparr>)"
  by (simp add: spin_some_def call_void_def)

lemma stop_nodes_calls:
  "\<exists>w'. stop_nodes ns w = Inr w'
     \<and> calls w' = calls w @ map Node_stop_spin (filter (\<lambda>n. n \<noteq> 0) ns)
     \<and> message_types w' = message_types w \<and> global_stop_flag w' = global_stop_flag w
     \<and> (0 \<notin> set ns \<longrightarrow> cerr w' = cerr w)"
proof (induction ns arbitrary: w)
  case Nil
  show ?case by simp
next
  case (Cons n ns)
  show ?case
  proof (cases "n = 0")
    case True
    then show ?thesis using Cons.IH [of "log_cerr ''node pointer is invalid!'' w"]
      by (auto simp add: log_cerr_def)
  next
    case False
    then show ?thesis using Cons.IH [of "w\<lparr>calls := calls w @ [Node_stop_spin n]\<rparr>"]
      by (auto simp add: stop_spin_live)
  qed
qed

lemma stop_not_running: "\<not> running ex \<Longrightarrow> stop (ex, w) = Inr (ex, w)"
  by (simp add: stop_def)

lemma stop_running:
  assumes "running ex"
  shows "\<exists>w'. stop (ex, w) = Inr (ex\<lparr>running := False\<rparr>, w')
     \<and> calls w' = calls w @ map Node_stop_spin (filter (\<lambda>n. n \<noteq> 0) (nodes ex))
     \<and> message_types w' = message_types w \<and> global_stop_flag w' = global_stop_flag w
     \<and> (0 \<notin> set (nodes ex) \<longrightarrow> cerr w' = cerr w)"
proof -
  obtain w' where w': "stop_nodes (nodes ex) w = Inr w'"
     "calls w' = calls w @ map Node_stop_spin (filter (\<lambda>n. n \<noteq> 0) (nodes ex))"
     "message_types w' = message_types w" "global_stop_flag w' = global_stop_flag w"
     "0 \<notin> set (nodes ex) \<longrightarrow> cerr w' = cerr w"
    using stop_nodes_calls [of "nodes ex" w] by blast
  have "stop (ex, w) = Inr (ex\<lparr>running := False\<rparr>, w')"
    using assms w'(1) by (simp add: stop_def)
  with w' show ?thesis by blast
qed

subsection \<open>Stopping\<close>




subsection \<open>Removing a node\<close>

lemma executor_call_free:
  "executor_call (Call_add_node q) (False, ex, w) = Some (Inr (False, fst (add_node q (ex, w)), snd (add_node q (ex, w))))"
  "executor_call (Call_remove_node q) (False, ex, w) = Some (Inr (False, remove_node q ex, w))"
  by (simp_all add: executor_call_def lock_guard_def split: prod.splits)

lemma executor_call_held: "executor_call c (True, ex, w) = None"
  by (cases c) (simp_all add: executor_call_def lock_guard_def)

lemma run_calls_held:
  "run_calls cs (True, ex, w) = (if cs = [] then Some (Inr (True, ex, w)) else None)"
  by (cases cs) (simp_all add: executor_call_held)

lemma spin_nodes_returned:
  "spin_nodes callbacks ns (True, ex, w) = Some (Inr s') \<Longrightarrow>
     \<exists>w'. s' = (True, ex, w')
        \<and> calls w' = calls w @ map Node_spin_some (filter (\<lambda>n. n \<noteq> 0) ns)"
proof (induction ns arbitrary: w)
  case Nil
  then show ?case by auto
next
  case (Cons n ns)
  show ?case
  proof (cases "n = 0")
    case True
    with Cons.prems
    have "spin_nodes callbacks ns (True, ex, log_cerr ''node pointer is invalid!'' w) = Some (Inr s')"
      by simp
    from Cons.IH [OF this] True show ?thesis by (simp add: log_cerr_fields)
  next
    case False
    define w1 where "w1 = w\<lparr>calls := calls w @ [Node_spin_some n]\<rparr>"
    have s: "spin_some n w = Inr w1" using False by (simp add: spin_some_live w1_def)
    have "callbacks (calls w1) n = []"
    proof (rule ccontr)
      assume "callbacks (calls w1) n \<noteq> []"
      then have "spin_nodes callbacks (n # ns) (True, ex, w) = None"
        using False s by (simp add: run_calls_held)
      with Cons.prems show False by simp
    qed
    with Cons.prems False s have "spin_nodes callbacks ns (True, ex, w1) = Some (Inr s')"
      by (simp add: run_calls_held)
    from Cons.IH [OF this] False show ?thesis by (simp add: w1_def)
  qed
qed

lemma spin_nodes_returns:
  assumes "\<forall>cs n. callbacks cs n = []"
  shows "\<exists>w'. spin_nodes callbacks ns (True, ex, w) = Some (Inr (True, ex, w'))"
proof (induction ns arbitrary: w)
  case Nil
  show ?case by simp
next
  case (Cons n ns)
  show ?case
  proof (cases "n = 0")
    case True
    then show ?thesis using Cons.IH [of "log_cerr ''node pointer is invalid!'' w"] by simp
  next
    case False
    then show ?thesis
      using Cons.IH [of "w\<lparr>calls := calls w @ [Node_spin_some n]\<rparr>"] assms
      by (simp add: spin_some_live run_calls_held)
  qed
qed

lemma spin_walk_returned:
  assumes "spin_walk callbacks (False, ex, w) = Some (Inr (l, ex', w'))"
  shows "l = False \<and> ex' = ex
     \<and> calls w' = calls w @ map Node_spin_some (filter (\<lambda>n. n \<noteq> 0) (nodes ex))"
proof (cases "spin_nodes callbacks (nodes ex) (True, ex, w)")
  case None
  with assms show ?thesis by (simp add: spin_walk_def)
next
  case (Some r)
  show ?thesis
  proof (cases r)
    case (Inl f)
    with Some assms show ?thesis by (simp add: spin_walk_def)
  next
    case (Inr s1)
    with Some have "spin_nodes callbacks (nodes ex) (True, ex, w) = Some (Inr s1)" by simp
    from spin_nodes_returned [OF this] obtain w1 where
      "s1 = (True, ex, w1)"
      "calls w1 = calls w @ map Node_spin_some (filter (\<lambda>n. n \<noteq> 0) (nodes ex))"
      by blast
    with Some Inr assms show ?thesis by (simp add: spin_walk_def)
  qed
qed

lemma spin_walk_returns:
  assumes "\<forall>cs n. callbacks cs n = []"
  shows "\<exists>w'. spin_walk callbacks (False, ex, w) = Some (Inr (False, ex, w'))"
proof -
  obtain w' where "spin_nodes callbacks (nodes ex) (True, ex, w) = Some (Inr (True, ex, w'))"
    using spin_nodes_returns [OF assms] by blast
  then show ?thesis by (simp add: spin_walk_def)
qed

lemma stop_returns: "\<exists>ex' w'. stop (ex, w) = Inr (ex', w')"
proof (cases "running ex")
  case True
  then show ?thesis using stop_running [of ex w] by blast
next
  case False
  then show ?thesis by (simp add: stop_not_running)
qed

lemma executor_step_returns:
  assumes "\<forall>cs n. callbacks cs n = []"
  shows "\<exists>ex' w'. executor_step callbacks e (False, ex, w) = Some (Inr (False, ex', w'))"
proof (cases e)
  case (Add_node q)
  then show ?thesis by (simp add: executor_call_free)
next
  case (Remove_node q)
  then show ?thesis by (simp add: executor_call_free)
next
  case Stop
  obtain ex' w' where "stop (ex, w) = Inr (ex', w')" using stop_returns by blast
  then show ?thesis using Stop by (simp add: executor_call_def lock_guard_def)
next
  case Spin_enter
  then show ?thesis by simp
next
  case Spin_turn
  then show ?thesis using spin_walk_returns [OF assms, of ex w] by (auto simp add: spin_turn_def)
next
  case Spin_walk
  then show ?thesis using spin_walk_returns [OF assms, of ex w] by auto
next
  case (Signal n)
  then show ?thesis by simp
qed

lemma executor_run_returns:
  assumes "\<forall>cs n. callbacks cs n = []"
  shows "\<exists>ex' w'. executor_run callbacks evs (False, ex, w) = Some (Inr (False, ex', w'))"
proof (induction evs arbitrary: ex w)
  case Nil
  show ?case by simp
next
  case (Cons e evs)
  obtain ex1 w1 where "executor_step callbacks e (False, ex, w) = Some (Inr (False, ex1, w1))"
    using executor_step_returns [OF assms] by blast
  then show ?case using Cons.IH [of ex1 w1] by simp
qed

lemma executor_step_keeps_removed:
  assumes "p \<notin> set (nodes ex)" "e \<noteq> Add_node p"
    and "executor_step callbacks e (False, ex, w) = Some (Inr (l, ex', w'))"
  shows "l = False \<and> p \<notin> set (nodes ex')
           \<and> (\<exists>new. calls w' = calls w @ new \<and> Node_spin_some p \<notin> set new)"
proof -
  have walk: "l = False \<and> p \<notin> set (nodes ex')
           \<and> (\<exists>new. calls w' = calls w @ new \<and> Node_spin_some p \<notin> set new)"
    if "spin_walk callbacks (False, ex, w) = Some (Inr (l, ex', w'))"
  proof -
    from spin_walk_returned [OF that]
    have r: "l = False" "ex' = ex"
      "calls w' = calls w @ map Node_spin_some (filter (\<lambda>n. n \<noteq> 0) (nodes ex))"
      by simp_all
    have "Node_spin_some p \<notin> set (map Node_spin_some (filter (\<lambda>n. n \<noteq> 0) (nodes ex)))"
      using assms(1) by auto
    with r assms(1) show ?thesis by blast
  qed
  show ?thesis
  proof (cases e)
    case (Add_node q)
    then show ?thesis using assms
      by (auto simp add: executor_call_free add_node_def log_cerr_def split: if_splits)
  next
    case (Remove_node q)
    then show ?thesis using assms by (auto simp add: executor_call_free remove_node_def)
  next
    case Stop
    show ?thesis
    proof (cases "running ex")
      case True
      then obtain w1 where "stop (ex, w) = Inr (ex\<lparr>running := False\<rparr>, w1)"
       "calls w1 = calls w @ map Node_stop_spin (filter (\<lambda>n. n \<noteq> 0) (nodes ex))"
        using stop_running [of ex w] by blast
      then show ?thesis using Stop assms(1,3)
        by (auto simp add: executor_call_def lock_guard_def)
    next
      case False
      then show ?thesis using Stop assms(1,3)
        by (auto simp add: executor_call_def lock_guard_def stop_not_running)
    qed
  next
    case Spin_enter
    then show ?thesis using assms by (auto simp add: spin_enter_def)
  next
    case Spin_turn
    show ?thesis
    proof (cases "running ex \<and> \<not> global_stop_flag w")
      case True
      then have "spin_turn callbacks (False, ex, w) = spin_walk callbacks (False, ex, w)"
        by (simp add: spin_turn_def)
      then show ?thesis using Spin_turn walk assms(3) by simp
    next
      case False
      then have "spin_turn callbacks (False, ex, w) = Some (Inr (False, ex, w))"
        by (auto simp add: spin_turn_def)
      then show ?thesis using Spin_turn assms(1,3) by simp
    qed
  next
    case Spin_walk
    then show ?thesis using walk assms(3) by simp
  next
    case (Signal n)
    then show ?thesis using assms by (auto simp add: signal_handler_def)
  qed
qed

lemma executor_run_keeps_removed:
  assumes "p \<notin> set (nodes ex)" "Add_node p \<notin> set evs"
    and "executor_run callbacks evs (False, ex, w) = Some (Inr (l, ex', w'))"
  shows "l = False \<and> p \<notin> set (nodes ex')
           \<and> (\<exists>new. calls w' = calls w @ new \<and> Node_spin_some p \<notin> set new)"
  using assms
proof (induction evs arbitrary: ex w)
  case Nil
  then show ?case by simp
next
  case (Cons e evs)
  from Cons.prems(2) have ne: "e \<noteq> Add_node p" and rest: "Add_node p \<notin> set evs" by auto
  from Cons.prems(3) obtain l1 ex1 w1 where
      s1: "executor_step callbacks e (False, ex, w) = Some (Inr (l1, ex1, w1))"
      and s2: "executor_run callbacks evs (l1, ex1, w1) = Some (Inr (l, ex', w'))"
    by (auto split: option.splits sum.splits)
  from executor_step_keeps_removed [OF Cons.prems(1) ne s1]
  obtain new1 where k1: "l1 = False" "p \<notin> set (nodes ex1)" "calls w1 = calls w @ new1"
      "Node_spin_some p \<notin> set new1"
    by blast
  from Cons.IH [OF k1(2) rest, of w1] s2 k1(1)
  obtain new2 where k2: "l = False" "p \<notin> set (nodes ex')" "calls w' = calls w1 @ new2"
      "Node_spin_some p \<notin> set new2"
    by blast
  have "calls w' = calls w @ (new1 @ new2)" using k1(3) k2(3) by simp
  moreover have "Node_spin_some p \<notin> set (new1 @ new2)" using k1(4) k2(4) by simp
  ultimately show ?case using k2(1,2) by blast
qed

text \<open>
  Claim C8, for a call of \<^verbatim>\<open>remove_node\<close> that finds the mutex free, which is every
  call but one made by a callback that the walk of this executor is running. Such a
  call returns, and the node \<open>p\<close> is then not in the list, however often it was
  registered. Let any steps follow (turns and walks of the loop of \<^verbatim>\<open>spin\<close>,
  \<^verbatim>\<open>stop\<close>, signals, other nodes added or removed) in which \<open>p\<close> is not added again.
  When no callback calls the executor, every one of these steps returns with the mutex
  free, \<open>p\<close> stays out of the list, and none of the calls that reach the node layer
  after the removal is \<^verbatim>\<open>spin_some\<close> on \<open>p\<close>. Whatever the callbacks do, the same holds of
  \<open>p\<close> in every such sequence of steps that returns.
\<close>

theorem remove_node_stops_spinning:
  "executor_call (Call_remove_node p) (False, ex, w) = Some (Inr (False, remove_node p ex, w))
   \<and> p \<notin> set (nodes (remove_node p ex))
   \<and> (Add_node p \<notin> set evs \<and> (\<forall>cs n. callbacks cs n = []) \<longrightarrow>
        (\<exists>ex' w'. executor_run callbacks evs (False, remove_node p ex, w)
                     = Some (Inr (False, ex', w'))
            \<and> p \<notin> set (nodes ex')
            \<and> (\<exists>new. calls w' = calls w @ new \<and> Node_spin_some p \<notin> set new)))
   \<and> (Add_node p \<notin> set evs \<longrightarrow>
        (\<forall>l ex' w'. executor_run callbacks evs (False, remove_node p ex, w)
                       = Some (Inr (l, ex', w')) \<longrightarrow>
            p \<notin> set (nodes ex')
            \<and> (\<exists>new. calls w' = calls w @ new \<and> Node_spin_some p \<notin> set new)))"
proof (intro conjI impI allI)
  show "executor_call (Call_remove_node p) (False, ex, w) = Some (Inr (False, remove_node p ex, w))"
    by (rule executor_call_free)
  show gone: "p \<notin> set (nodes (remove_node p ex))" by (simp add: remove_node_def)
  show "\<exists>ex' w'. executor_run callbacks evs (False, remove_node p ex, w)
                     = Some (Inr (False, ex', w'))
            \<and> p \<notin> set (nodes ex')
            \<and> (\<exists>new. calls w' = calls w @ new \<and> Node_spin_some p \<notin> set new)"
    if h: "Add_node p \<notin> set evs \<and> (\<forall>cs n. callbacks cs n = [])"
  proof -
    from h have quiet: "\<forall>cs n. callbacks cs n = []" and fresh: "Add_node p \<notin> set evs"
      by simp_all
    obtain ex' w' where
      r: "executor_run callbacks evs (False, remove_node p ex, w) = Some (Inr (False, ex', w'))"
      using executor_run_returns [OF quiet] by blast
    from executor_run_keeps_removed [OF gone fresh r] r show ?thesis by blast
  qed
  show "p \<notin> set (nodes ex')"
    if "Add_node p \<notin> set evs"
      and "executor_run callbacks evs (False, remove_node p ex, w) = Some (Inr (l, ex', w'))"
    for l ex' w'
    using executor_run_keeps_removed [OF gone that] by simp
  show "\<exists>new. calls w' = calls w @ new \<and> Node_spin_some p \<notin> set new"
    if "Add_node p \<notin> set evs"
      and "executor_run callbacks evs (False, remove_node p ex, w) = Some (Inr (l, ex', w'))"
    for l ex' w'
    using executor_run_keeps_removed [OF gone that] by simp
qed

text \<open>
  The theorem on a running executor in which the node 4096 is registered twice, beside
  the node 8192, with callbacks that do not call the executor.
\<close>

theorem remove_node_stops_spinning_witness:
  "Add_node 4096 \<notin> set [Spin_turn, Add_node 12288, Spin_walk]
   \<and> (\<forall>cs n. no_callbacks cs n = [])
   \<and> executor_call (Call_remove_node 4096)
        (False, \<lparr>running = True, nodes = [4096, 8192, 4096]\<rparr>, empty_world)
       = Some (Inr (False, \<lparr>running = True, nodes = [8192]\<rparr>, empty_world))
   \<and> (\<exists>ex' w'. executor_run no_callbacks [Spin_turn, Add_node 12288, Spin_walk]
                   (False, \<lparr>running = True, nodes = [8192]\<rparr>, empty_world)
                 = Some (Inr (False, ex', w'))
          \<and> 4096 \<notin> set (nodes ex') \<and> Node_spin_some 4096 \<notin> set (calls w'))"
proof -
  have e: "Add_node 4096 \<notin> set [Spin_turn, Add_node 12288, Spin_walk]" by simp
  have q: "\<forall>cs n. no_callbacks cs n = []" by (simp add: no_callbacks_def)
  have r: "remove_node 4096 \<lparr>running = True, nodes = [4096, 8192, 4096]\<rparr>
             = \<lparr>running = True, nodes = [8192]\<rparr>"
    by (simp add: remove_node_def)
  have c: "calls empty_world = []" by (simp add: empty_world_def)
  note t = remove_node_stops_spinning
         [of 4096 "\<lparr>running = True, nodes = [4096, 8192, 4096]\<rparr>" empty_world
             "[Spin_turn, Add_node 12288, Spin_walk]" no_callbacks, unfolded r]
  from t have a: "executor_call (Call_remove_node 4096)
        (False, \<lparr>running = True, nodes = [4096, 8192, 4096]\<rparr>, empty_world)
       = Some (Inr (False, \<lparr>running = True, nodes = [8192]\<rparr>, empty_world))"
    by blast
  from t e q obtain ex' w' new where
      "executor_run no_callbacks [Spin_turn, Add_node 12288, Spin_walk]
         (False, \<lparr>running = True, nodes = [8192]\<rparr>, empty_world)
       = Some (Inr (False, ex', w'))"
      "4096 \<notin> set (nodes ex')" "calls w' = calls empty_world @ new"
      "Node_spin_some 4096 \<notin> set new"
    by blast
  then have "\<exists>ex' w'. executor_run no_callbacks [Spin_turn, Add_node 12288, Spin_walk]
                   (False, \<lparr>running = True, nodes = [8192]\<rparr>, empty_world)
                 = Some (Inr (False, ex', w'))
          \<and> 4096 \<notin> set (nodes ex') \<and> Node_spin_some 4096 \<notin> set (calls w')"
    using c by auto
  with e q a show ?thesis by blast
qed

text \<open>
  A call of \<^verbatim>\<open>remove_node\<close> that finds the mutex held never returns. It happens when a
  callback removes its node: a new executor gets the node 4096 and spins; the walk takes
  the mutex and calls \<^verbatim>\<open>spin_some\<close>, the callback calls \<^verbatim>\<open>remove_node\<close>, which waits
  for the mutex that its own thread holds, and the turn of the loop never ends.
\<close>

theorem remove_node_from_callback_never_returns:
  "executor_call (Call_remove_node 4096)
       (True, \<lparr>running = True, nodes = [4096]\<rparr>, empty_world) = None
   \<and> executor_run removing_callbacks [Add_node 4096, Spin_enter, Spin_turn]
        (False, Executor_ctor, empty_world) = None"
  by (simp add: executor_call_def lock_guard_def add_node_def Executor_ctor_def spin_enter_def
      spin_turn_def spin_walk_def empty_world_def spin_some_def call_void_def
      removing_callbacks_def)

section \<open>Properties of Rate\<close>

subsection \<open>Counts that fit\<close>

lemma int64_id: "is_int64 x \<Longrightarrow> int64 x = x"
  by (simp add: int64_def is_int64_def)

lemma to_nanoseconds_fits:
  "0 \<le> p \<Longrightarrow> p * 1000000 < 2 ^ 63 \<Longrightarrow> to_nanoseconds p = p * 1000000"
  by (simp add: to_nanoseconds_def int64_id is_int64_def)

subsection \<open>The catch-up loop\<close>

lemma catch_up_stuck:
  assumes "catch_up now p t = Some y"
  shows "\<not> (to_nanoseconds p = 0 \<and> is_int64 t \<and> t \<le> now)"
proof (rule catch_up.raw_induct
    [where P = "\<lambda>now p t y. \<not> (to_nanoseconds p = 0 \<and> is_int64 t \<and> t \<le> now)", OF _ assms])
  fix f :: "int \<Rightarrow> int \<Rightarrow> int \<Rightarrow> int option" and now p t y
  assume ih: "\<And>now p t y. f now p t = Some y \<Longrightarrow> \<not> (to_nanoseconds p = 0 \<and> is_int64 t \<and> t \<le> now)"
    and eq: "(if t \<le> now then f now p (int64 (t + to_nanoseconds p)) else Some t) = Some y"
  show "\<not> (to_nanoseconds p = 0 \<and> is_int64 t \<and> t \<le> now)"
  proof
    assume a: "to_nanoseconds p = 0 \<and> is_int64 t \<and> t \<le> now"
    then have "int64 (t + to_nanoseconds p) = t" by (simp add: int64_id)
    with eq a have "f now p t = Some y" by simp
    then have "\<not> (to_nanoseconds p = 0 \<and> is_int64 t \<and> t \<le> now)" by (rule ih)
    with a show False by simp
  qed
qed

lemma catch_up_zero_period:
  "to_nanoseconds p = 0 \<Longrightarrow> is_int64 t \<Longrightarrow> t \<le> now \<Longrightarrow> catch_up now p t = None"
  using catch_up_stuck [of now p t] by (cases "catch_up now p t") auto

lemma div_minus_period: "0 < (q::int) \<Longrightarrow> (d - q) div q = d div q - 1"
  using div_add_self2 [of q "d - q"] by simp

lemma catch_up_pos:
  assumes "0 < q" "to_nanoseconds p = q" "now + q < 2 ^ 63"
  shows "- (2 ^ 63) \<le> t \<Longrightarrow> t \<le> now \<Longrightarrow>
           catch_up now p t = Some (t + ((now - t) div q + 1) * q)"
proof (induction "nat (now - t)" arbitrary: t rule: less_induct)
  case less
  have fit: "int64 (t + q) = t + q"
    using less.prems assms(1,3) by (simp add: int64_id is_int64_def)
  show ?case
  proof (cases "t + q \<le> now")
    case True
    have "nat (now - (t + q)) < nat (now - t)" using assms(1) True by simp
    moreover have "- (2 ^ 63) \<le> t + q" using less.prems(1) assms(1) by simp
    ultimately have c: "catch_up now p (t + q) = Some (t + q + ((now - (t + q)) div q + 1) * q)"
      using True by (rule less.hyps)
    have "(now - (t + q)) div q = (now - t) div q - 1"
      using div_minus_period [OF assms(1), of "now - t"] by (simp add: algebra_simps)
    then have "t + q + ((now - (t + q)) div q + 1) * q = t + ((now - t) div q + 1) * q"
      by (simp add: distrib_right)
    with c have "catch_up now p (t + q) = Some (t + ((now - t) div q + 1) * q)"
      by simp
    then show ?thesis using less.prems(2) fit assms(2)
      by (subst catch_up.simps) simp
  next
    case False
    then have "(now - t) div q = 0" using less.prems(2) by simp
    moreover have "catch_up now p (t + q) = Some (t + q)"
      using False by (subst catch_up.simps) simp
    ultimately show ?thesis using less.prems(2) fit assms(2)
      by (subst catch_up.simps) simp
  qed
qed

subsection \<open>How far the loop advances\<close>

lemma div_mult_le_self: "0 < (q::int) \<Longrightarrow> a div q * q \<le> a"
proof -
  assume "0 < q"
  then have "0 \<le> a mod q" by simp
  moreover have "a div q * q + a mod q = a" by simp
  ultimately show ?thesis by linarith
qed

lemma steps_minimal:
  assumes "0 < (q::int)" "now < t + j * q"
  shows "(now - t) div q + 1 \<le> j"
proof (rule ccontr)
  assume "\<not> (now - t) div q + 1 \<le> j"
  then have "j \<le> (now - t) div q" by simp
  then have "j * q \<le> (now - t) div q * q" using assms(1) by (simp add: mult_right_mono)
  also have "\<dots> \<le> now - t" using assms(1) by (rule div_mult_le_self)
  finally show False using assms(2) by simp
qed

lemma steps_reach:
  assumes "0 < (q::int)"
  shows "now < t + ((now - t) div q + 1) * q"
proof -
  define d where "d = (now - t) div q"
  have "(now - t) mod q < q" using assms by simp
  moreover have "now - t = d * q + (now - t) mod q" by (simp add: d_def)
  moreover have "(d + 1) * q = d * q + q" by (simp add: distrib_right)
  ultimately show ?thesis unfolding d_def [symmetric] by linarith
qed

lemma steps_pos: "0 < (q::int) \<Longrightarrow> t \<le> now \<Longrightarrow> 1 \<le> (now - t) div q + 1"
  by (simp add: pos_imp_zdiv_nonneg_iff)

lemma Rate_sleep_on_schedule:
  "now < next_time r \<Longrightarrow> Rate_sleep now r = Some (r, next_time r)"
  by (simp add: Rate_sleep_def)

lemma Rate_sleep_behind:
  assumes "0 < q" "to_nanoseconds (period r) = q" "now + q < 2 ^ 63"
    and "- (2 ^ 63) \<le> next_time r" "next_time r \<le> now"
  shows "Rate_sleep now r =
           Some (r\<lparr>next_time := next_time r + ((now - next_time r) div q + 1) * q\<rparr>,
                 next_time r + ((now - next_time r) div q + 1) * q)"
  using assms(5) catch_up_pos [OF assms(1,2,3,4,5)] by (simp add: Rate_sleep_def)

lemma Rate_sleep_loop_grid:
  assumes "0 < q" "to_nanoseconds (period r) = q"
    and "- (2 ^ 63) \<le> next_time r" "\<forall>n\<in>set nows. n + q < 2 ^ 63"
  shows "\<exists>r' k. Rate_sleep_loop nows r = Some r' \<and> 0 \<le> k
           \<and> next_time r' = next_time r + k * q \<and> period r' = period r"
  using assms(2,3,4)
proof (induction nows arbitrary: r)
  case Nil
  have "Rate_sleep_loop [] r = Some r \<and> (0::int) \<le> 0
          \<and> next_time r = next_time r + 0 * q \<and> period r = period r"
    by simp
  then show ?case by blast
next
  case (Cons now nows)
  from Cons.prems(3) have rest: "\<forall>n\<in>set nows. n + q < 2 ^ 63" and hd: "now + q < 2 ^ 63"
    by simp_all
  show ?case
  proof (cases "now < next_time r")
    case True
    then have "Rate_sleep_loop (now # nows) r = Rate_sleep_loop nows r"
      by (simp add: Rate_sleep_on_schedule)
    then show ?thesis using Cons.IH [OF Cons.prems(1,2) rest] by simp
  next
    case False
    define k0 where "k0 = (now - next_time r) div q + 1"
    define r1 where "r1 = r\<lparr>next_time := next_time r + k0 * q\<rparr>"
    have s: "Rate_sleep now r = Some (r1, next_time r + k0 * q)"
      using Rate_sleep_behind [OF assms(1) Cons.prems(1) hd Cons.prems(2)] False
      by (simp add: k0_def r1_def)
    have k0: "1 \<le> k0" using steps_pos [of q "next_time r" now] assms(1) False
      by (simp add: k0_def)
    have p1: "period r1 = period r" and n1: "next_time r1 = next_time r + k0 * q"
      by (simp_all add: r1_def)
    have "0 \<le> k0 * q" using k0 assms(1) by simp
    then have lo: "- (2 ^ 63) \<le> next_time r1" using Cons.prems(2) n1 by simp
    have pq: "to_nanoseconds (period r1) = q" using p1 Cons.prems(1) by simp
    obtain r' k where r': "Rate_sleep_loop nows r1 = Some r'" "0 \<le> k"
        "next_time r' = next_time r1 + k * q" "period r' = period r1"
      using Cons.IH [OF pq lo rest] by auto
    have "Rate_sleep_loop (now # nows) r = Some r'" using s r'(1) by simp
    moreover have "0 \<le> k0 + k" using k0 r'(2) by simp
    moreover have "next_time r' = next_time r + (k0 + k) * q"
      using r'(3) n1 by (simp add: distrib_right)
    moreover have "period r' = period r" using r'(4) p1 by simp
    ultimately show ?thesis by blast
  qed
qed

text \<open>
  Claim C3, for a positive period and clock readings that leave room for one period.
  Let the period be \<open>P\<close> milliseconds, with \<open>P * 1000000\<close> nanoseconds below \<open>2 ^ 63\<close>,
  and let the construction time and every clock reading that \<^verbatim>\<open>sleep\<close> takes be 64-bit
  counts that stay below \<open>2 ^ 63\<close> when one period is added. The constructor sets
  \<open>next_time\<close> to the construction time plus the period. A call of \<^verbatim>\<open>sleep\<close> made before
  \<open>next_time\<close> returns after blocking until \<open>next_time\<close>, which it leaves as it is. A call
  made at or after \<open>next_time\<close> returns too: it advances \<open>next_time\<close> by \<open>k\<close> periods,
  where \<open>k \<ge> 1\<close> is the least number of periods that puts \<open>next_time\<close> strictly after the
  clock reading, and blocks until that instant. So the instant slept until is always in
  the future, and after any number of calls \<open>next_time\<close> is the first one plus a whole,
  non-negative number of periods.
\<close>

theorem Rate_sleep_positive_period:
  assumes "0 < P" and "P * 1000000 < 2 ^ 63"
    and "is_int64 t0" and "t0 + P * 1000000 < 2 ^ 63"
    and "period r = P" and "is_int64 (next_time r)"
    and "is_int64 now" and "now + P * 1000000 < 2 ^ 63"
    and "\<forall>n\<in>set nows. is_int64 n \<and> n + P * 1000000 < 2 ^ 63"
  shows "next_time (Rate_ctor t0 P) = t0 + P * 1000000
    \<and> (now < next_time r \<longrightarrow> Rate_sleep now r = Some (r, next_time r))
    \<and> (next_time r \<le> now \<longrightarrow>
         (\<exists>k. 1 \<le> k \<and> now < next_time r + k * (P * 1000000)
            \<and> (\<forall>j. now < next_time r + j * (P * 1000000) \<longrightarrow> k \<le> j)
            \<and> Rate_sleep now r
                = Some (r\<lparr>next_time := next_time r + k * (P * 1000000)\<rparr>,
                        next_time r + k * (P * 1000000))))
    \<and> (\<exists>r' k. Rate_sleep_loop nows (Rate_ctor t0 P) = Some r' \<and> 0 \<le> k
            \<and> next_time r' = t0 + P * 1000000 + k * (P * 1000000) \<and> period r' = P)"
proof (intro conjI impI)
  define q where "q = P * 1000000"
  have q: "0 < q" using assms(1) by (simp add: q_def)
  have tq: "to_nanoseconds P = q"
    using assms(1,2) by (simp add: q_def to_nanoseconds_fits)
  have ctor: "next_time (Rate_ctor t0 P) = t0 + q"
    using assms(3,4) q tq by (simp add: Rate_ctor_def int64_id is_int64_def q_def)
  show "next_time (Rate_ctor t0 P) = t0 + P * 1000000"
    using ctor by (simp add: q_def)
  show "Rate_sleep now r = Some (r, next_time r)" if "now < next_time r"
    using that by (rule Rate_sleep_on_schedule)
  have lo: "- (2 ^ 63) \<le> next_time r" using assms(6) by (simp add: is_int64_def)
  have pr: "to_nanoseconds (period r) = q" using tq assms(5) by simp
  have "\<exists>k. 1 \<le> k \<and> now < next_time r + k * q
          \<and> (\<forall>j. now < next_time r + j * q \<longrightarrow> k \<le> j)
          \<and> Rate_sleep now r = Some (r\<lparr>next_time := next_time r + k * q\<rparr>, next_time r + k * q)"
    if behind: "next_time r \<le> now"
  proof (intro exI conjI allI impI)
    show "1 \<le> (now - next_time r) div q + 1"
      using q behind by (rule steps_pos)
    show "now < next_time r + ((now - next_time r) div q + 1) * q"
      using q by (rule steps_reach)
    show "(now - next_time r) div q + 1 \<le> j" if "now < next_time r + j * q" for j
      using q that by (rule steps_minimal)
    have "now + q < 2 ^ 63" using assms(8) by (simp add: q_def)
    then show "Rate_sleep now r
            = Some (r\<lparr>next_time := next_time r + ((now - next_time r) div q + 1) * q\<rparr>,
                    next_time r + ((now - next_time r) div q + 1) * q)"
      using q pr lo behind by (intro Rate_sleep_behind)
  qed
  then show "\<exists>k. 1 \<le> k \<and> now < next_time r + k * (P * 1000000)
          \<and> (\<forall>j. now < next_time r + j * (P * 1000000) \<longrightarrow> k \<le> j)
          \<and> Rate_sleep now r
              = Some (r\<lparr>next_time := next_time r + k * (P * 1000000)\<rparr>,
                      next_time r + k * (P * 1000000))"
    if "next_time r \<le> now"
    using that unfolding q_def by blast
  have "period (Rate_ctor t0 P) = P" by (simp add: Rate_ctor_def)
  then have pc: "to_nanoseconds (period (Rate_ctor t0 P)) = q" using tq by simp
  have lc: "- (2 ^ 63) \<le> next_time (Rate_ctor t0 P)"
    using ctor assms(3) q by (simp add: is_int64_def)
  have bn: "\<forall>n\<in>set nows. n + q < 2 ^ 63" using assms(9) by (simp add: q_def)
  show "\<exists>r' k. Rate_sleep_loop nows (Rate_ctor t0 P) = Some r' \<and> 0 \<le> k
          \<and> next_time r' = t0 + P * 1000000 + k * (P * 1000000) \<and> period r' = P"
    using Rate_sleep_loop_grid [OF q pc lc bn] ctor
    by (simp add: q_def Rate_ctor_def)
qed

text \<open>
  The theorem at a rate of period 10 ms built at time 0: a call 3 ns later is on
  schedule, a call at 25 ms is behind.
\<close>

theorem Rate_sleep_positive_period_witness:
  "(0::int) < 10 \<and> (10::int) * 1000000 < 2 ^ 63
    \<and> is_int64 0 \<and> (0::int) + 10 * 1000000 < 2 ^ 63
    \<and> period (Rate_ctor 0 10) = 10 \<and> is_int64 (next_time (Rate_ctor 0 10))
    \<and> is_int64 25000000 \<and> (25000000::int) + 10 * 1000000 < 2 ^ 63
    \<and> next_time (Rate_ctor 0 10) = 10000000
    \<and> Rate_sleep 3 (Rate_ctor 0 10) = Some (Rate_ctor 0 10, 10000000)
    \<and> (\<exists>k. 1 \<le> k \<and> 25000000 < 10000000 + k * 10000000
          \<and> Rate_sleep 25000000 (Rate_ctor 0 10)
              = Some (\<lparr>period = 10, next_time = 10000000 + k * 10000000\<rparr>,
                      10000000 + k * 10000000))
    \<and> (\<exists>r' k. Rate_sleep_loop [3, 25000000, 31000000] (Rate_ctor 0 10) = Some r' \<and> 0 \<le> k
          \<and> next_time r' = 10000000 + k * 10000000 \<and> period r' = 10)"
proof -
  have p: "(0::int) < 10" "(10::int) * 1000000 < 2 ^ 63" by simp_all
  have t: "is_int64 0" "(0::int) + 10 * 1000000 < 2 ^ 63" by (simp_all add: is_int64_def)
  have n: "next_time (Rate_ctor 0 10) = 10000000"
    by (simp add: Rate_ctor_def to_nanoseconds_def int64_def)
  have r: "period (Rate_ctor 0 10) = 10" "is_int64 (next_time (Rate_ctor 0 10))"
    by (simp_all add: n is_int64_def) (simp add: Rate_ctor_def)
  have a: "is_int64 3" "(3::int) + 10 * 1000000 < 2 ^ 63"
    "is_int64 25000000" "(25000000::int) + 10 * 1000000 < 2 ^ 63"
    by (simp_all add: is_int64_def)
  have l: "\<forall>n\<in>set [3, 25000000, 31000000]. is_int64 n \<and> n + 10 * 1000000 < 2 ^ 63"
    "\<forall>n\<in>set ([]::int list). is_int64 n \<and> n + 10 * 1000000 < 2 ^ 63"
    by (simp_all add: is_int64_def)
  have u: "(Rate_ctor 0 10)\<lparr>next_time := x\<rparr> = \<lparr>period = 10, next_time = x\<rparr>" for x
    by (simp add: Rate_ctor_def)
  have m: "(10::int) * 1000000 = 10000000" "(0::int) + 10000000 = 10000000" by simp_all
  have lt: "(3::int) < 10000000" and le: "(10000000::int) \<le> 25000000" by simp_all
  note on_time = Rate_sleep_positive_period
      [OF p t r a(1,2) l(1), unfolded n u m]
  note late = Rate_sleep_positive_period
      [OF p t r a(3,4) l(2), unfolded n u m]
  from on_time lt have b: "Rate_sleep 3 (Rate_ctor 0 10) = Some (Rate_ctor 0 10, 10000000)"
    by blast
  from on_time
  have c: "\<exists>r' k. Rate_sleep_loop [3, 25000000, 31000000] (Rate_ctor 0 10) = Some r' \<and> 0 \<le> k
          \<and> next_time r' = 10000000 + k * 10000000 \<and> period r' = 10"
    by blast
  from late le
  have d: "\<exists>k. 1 \<le> k \<and> 25000000 < 10000000 + k * 10000000
          \<and> Rate_sleep 25000000 (Rate_ctor 0 10)
              = Some (\<lparr>period = 10, next_time = 10000000 + k * 10000000\<rparr>,
                      10000000 + k * 10000000)"
    by blast
  from p t r a(3,4) n b c d show ?thesis by blast
qed

text \<open>
  Two rates outside these bounds. With a period of zero the loop never leaves: a
  \<^verbatim>\<open>Rate\<close> built at time 0 whose \<^verbatim>\<open>sleep\<close> is called at time 5 does not return. With a
  period of 9223372036855 ms the conversion to nanoseconds wraps: a \<^verbatim>\<open>Rate\<close> built at
  time 0 has its \<open>next_time\<close> in the past, not at the construction time plus the period.
\<close>

theorem Rate_zero_period_never_returns_huge_period_wraps:
  "Rate_sleep 5 (Rate_ctor 0 0) = None
   \<and> next_time (Rate_ctor 0 9223372036855) = - 9223372036854551616"
proof
  have "next_time (Rate_ctor 0 0) = 0" "period (Rate_ctor 0 0) = 0"
    by (simp_all add: Rate_ctor_def to_nanoseconds_def int64_def)
  moreover have "catch_up 5 0 0 = None"
    by (rule catch_up_zero_period) (simp_all add: to_nanoseconds_def int64_def is_int64_def)
  ultimately show "Rate_sleep 5 (Rate_ctor 0 0) = None"
    by (simp add: Rate_sleep_def)
  show "next_time (Rate_ctor 0 9223372036855) = - 9223372036854551616"
    by (simp add: Rate_ctor_def to_nanoseconds_def int64_def)
qed

section \<open>Properties of a subscription\<close>

subsection \<open>One run of the dispatch closure\<close>

lemma invoke_try_cases:
  "invoke_try cb s =
     (case message_ptr_buffer s of
        [] \<Rightarrow> (None, s\<lparr>cerr_lines := cerr_lines s @ [''Error: Vector is empty'']\<rparr>)
      | front # rest \<Rightarrow>
          (if fst (cb front (user s)) = None
           then (None, s\<lparr>user := snd (cb front (user s)), invoked := invoked s @ [front],
                          message_ptr_buffer := rest\<rparr>)
           else (fst (cb front (user s)),
                 s\<lparr>user := snd (cb front (user s)), invoked := invoked s @ [front]\<rparr>)))"
  by (auto simp add: invoke_try_def split: list.splits prod.splits option.splits)

lemma invoke_never_throws: "fst (invoke cb s) = None"
  by (simp add: invoke_def split: prod.splits option.splits exn.splits)

lemma invoke_returning:
  assumes "message_ptr_buffer s = front # rest" "fst (cb front (user s)) = None"
  shows "invoke cb s = (None, s\<lparr>user := snd (cb front (user s)), invoked := invoked s @ [front],
                          message_ptr_buffer := rest\<rparr>)"
  using assms by (simp add: invoke_def invoke_try_cases)

lemma invoke_throwing:
  assumes "message_ptr_buffer s = front # rest" "fst (cb front (user s)) = Some e"
  shows "invoke cb s =
     (None, s\<lparr>user := snd (cb front (user s)), invoked := invoked s @ [front],
              cerr_lines := cerr_lines s @
                [case e of Std_exception what \<Rightarrow> ''Exception during callback invocation: '' @ what
                 | Unknown_exception \<Rightarrow> ''Unknown exception during callback invocation.'']\<rparr>)"
  using assms by (cases e) (simp_all add: invoke_def invoke_try_cases)

lemma invoke_empty:
  assumes "message_ptr_buffer s = []"
  shows "invoke cb s = (None, s\<lparr>cerr_lines := cerr_lines s @ [''Error: Vector is empty'']\<rparr>)"
  using assms by (simp add: invoke_def invoke_try_cases)

subsection \<open>Any callback: exceptions stay inside the closure\<close>

lemma invoke_any:
  "\<exists>s'. invoke cb s = (None, s') \<and> channel s' = channel s
     \<and> length (message_ptr_buffer s) \<le> Suc (length (message_ptr_buffer s'))
     \<and> length (invoked s') = (if message_ptr_buffer s = [] then length (invoked s)
                                else Suc (length (invoked s)))"
proof (cases "message_ptr_buffer s")
  case Nil
  then show ?thesis by (simp add: invoke_empty)
next
  case (Cons front rest)
  show ?thesis
  proof (cases "fst (cb front (user s))")
    case None
    then show ?thesis using invoke_returning [OF Cons, of cb] Cons by simp
  next
    case (Some e)
    then show ?thesis using invoke_throwing [OF Cons, of cb e] Cons by simp
  qed
qed

lemma dispatch_one_any:
  "\<exists>s'. dispatch_one cb s = (None, s') \<and> channel s' = tl (channel s)
     \<and> length (message_ptr_buffer s) \<le> Suc (length (message_ptr_buffer s'))
     \<and> length (invoked s') = (if channel s = [] \<or> message_ptr_buffer s = [] then length (invoked s)
                                else Suc (length (invoked s)))"
proof (cases "channel s")
  case Nil
  then show ?thesis by (simp add: dispatch_one_def)
next
  case (Cons c rest)
  then show ?thesis using invoke_any [of cb "s\<lparr>channel := rest\<rparr>"]
    by (auto simp add: dispatch_one_def)
qed

lemma dispatch_n_any:
  "\<exists>s'. dispatch_n n cb s = (None, s') \<and> channel s' = drop n (channel s)
     \<and> (n \<le> length (channel s) \<and> length (channel s) \<le> length (message_ptr_buffer s)
          \<longrightarrow> length (invoked s') = length (invoked s) + n
              \<and> length (channel s') \<le> length (message_ptr_buffer s'))"
proof (induction n arbitrary: s)
  case 0
  show ?case by simp
next
  case (Suc n)
  obtain s1 where s1: "dispatch_one cb s = (None, s1)" "channel s1 = tl (channel s)"
      "length (message_ptr_buffer s) \<le> Suc (length (message_ptr_buffer s1))"
      "length (invoked s1) = (if channel s = [] \<or> message_ptr_buffer s = [] then length (invoked s)
                                else Suc (length (invoked s)))"
    using dispatch_one_any [of cb s] by blast
  obtain s' where s': "dispatch_n n cb s1 = (None, s')" "channel s' = drop n (channel s1)"
      "n \<le> length (channel s1) \<and> length (channel s1) \<le> length (message_ptr_buffer s1)
          \<longrightarrow> length (invoked s') = length (invoked s1) + n
              \<and> length (channel s') \<le> length (message_ptr_buffer s')"
    using Suc.IH [of s1] by blast
  have r: "dispatch_n (Suc n) cb s = (None, s')" using s1(1) s'(1) by simp
  have c: "channel s' = drop (Suc n) (channel s)" using s1(2) s'(2) by (simp add: drop_Suc)
  have "length (invoked s') = length (invoked s) + Suc n
          \<and> length (channel s') \<le> length (message_ptr_buffer s')"
    if h: "Suc n \<le> length (channel s)" "length (channel s) \<le> length (message_ptr_buffer s)"
  proof -
    from h have ne: "channel s \<noteq> []" "message_ptr_buffer s \<noteq> []" by auto
    have "n \<le> length (channel s1)" using h(1) s1(2) by simp
    moreover have "length (channel s1) \<le> length (message_ptr_buffer s1)"
      using h(2) s1(2,3) ne by simp
    ultimately have "length (invoked s') = length (invoked s1) + n"
        "length (channel s') \<le> length (message_ptr_buffer s')"
      using s'(3) by simp_all
    then show ?thesis using s1(4) ne by simp
  qed
  with r c show ?case by blast
qed

text \<open>
  Claim C5, for the dispatch closure of a subscription. Whatever the user's callback
  does, \<^verbatim>\<open>invoke\<close> returns normally; when the callback throws on the front message, a
  line that names the exception is written to \<^verbatim>\<open>std::cerr\<close>. Draining the queue
  therefore never ends early: it returns normally with the queue empty, and when the
  buffer holds a message for every pending closure, the user's callback has been called
  once for each of them, whichever of the calls threw.
\<close>

theorem callback_exceptions_stay_inside:
  "fst (invoke cb s) = None
   \<and> (\<forall>front rest e. message_ptr_buffer s = front # rest \<and> fst (cb front (user s)) = Some e \<longrightarrow>
        cerr_lines (snd (invoke cb s)) = cerr_lines s @
           [case e of Std_exception what \<Rightarrow> ''Exception during callback invocation: '' @ what
            | Unknown_exception \<Rightarrow> ''Unknown exception during callback invocation.''])
   \<and> (\<exists>s'. drain_available cb s = (None, s') \<and> channel s' = []
         \<and> (length (channel s) \<le> length (message_ptr_buffer s) \<longrightarrow>
               length (invoked s') = length (invoked s) + length (channel s)))"
proof (intro conjI allI impI)
  show "fst (invoke cb s) = None" by (rule invoke_never_throws)
  show "cerr_lines (snd (invoke cb s)) = cerr_lines s @
           [case e of Std_exception what \<Rightarrow> ''Exception during callback invocation: '' @ what
            | Unknown_exception \<Rightarrow> ''Unknown exception during callback invocation.'']"
    if "message_ptr_buffer s = front # rest \<and> fst (cb front (user s)) = Some e" for front rest e
    using that invoke_throwing [of s front rest cb e] by simp
  show "\<exists>s'. drain_available cb s = (None, s') \<and> channel s' = []
         \<and> (length (channel s) \<le> length (message_ptr_buffer s) \<longrightarrow>
               length (invoked s') = length (invoked s) + length (channel s))"
    using dispatch_n_any [of "length (channel s)" cb s] by (auto simp add: drain_available_def)
qed

text \<open>
  The theorem on the subscription that has received the messages 1 and 2, with the
  callback that always throws.
\<close>

theorem callback_exceptions_stay_inside_witness:
  "message_ptr_buffer two_messages = [1, 2]
   \<and> length (channel two_messages) \<le> length (message_ptr_buffer two_messages)
   \<and> fst (throwing_callback 1 (user two_messages)) = Some (Std_exception ''boom'')
   \<and> fst (invoke throwing_callback two_messages) = None
   \<and> cerr_lines (snd (invoke throwing_callback two_messages))
        = [''Exception during callback invocation: boom'']
   \<and> (\<exists>s'. drain_available throwing_callback two_messages = (None, s')
         \<and> channel s' = [] \<and> length (invoked s') = 2)"
proof -
  have f: "message_ptr_buffer two_messages = [1, 2]"
     "channel two_messages = [Subscription_callback, Subscription_callback]"
     "invoked two_messages = []" "cerr_lines two_messages = []"
    by (simp_all add: two_messages_def on_data_available_def SubscriberListener_ctor_def)
  have l: "length (channel two_messages) \<le> length (message_ptr_buffer two_messages)"
    by (simp add: f)
  have t: "fst (throwing_callback 1 (user two_messages)) = Some (Std_exception ''boom'')"
    by (simp add: throwing_callback_def)
  note c = callback_exceptions_stay_inside [of throwing_callback two_messages]
  from c have a: "fst (invoke throwing_callback two_messages) = None" by blast
  from c f(1) t
  have "cerr_lines (snd (invoke throwing_callback two_messages))
          = cerr_lines two_messages @ [''Exception during callback invocation: '' @ ''boom'']"
    by auto
  then have b: "cerr_lines (snd (invoke throwing_callback two_messages))
          = [''Exception during callback invocation: boom'']"
    by (simp add: f)
  from c l obtain s' where s': "drain_available throwing_callback two_messages = (None, s')"
      "channel s' = []"
      "length (invoked s') = length (invoked two_messages) + length (channel two_messages)"
    by blast
  from s'(3) f have "length (invoked s') = 2" by simp
  with s'(1,2)
  have d: "\<exists>s'. drain_available throwing_callback two_messages = (None, s')
         \<and> channel s' = [] \<and> length (invoked s') = 2"
    by blast
  from f(1) l t a b d show ?thesis by blast
qed

subsection \<open>Arrival order, each message once\<close>

lemma dispatch_one_quiet:
  assumes "\<forall>m u. fst (cb m u) = None"
    and "length (channel s) = length (message_ptr_buffer s)"
  shows "\<exists>s'. dispatch_one cb s = (None, s')
           \<and> length (channel s') = length (message_ptr_buffer s')
           \<and> invoked s' @ message_ptr_buffer s' = invoked s @ message_ptr_buffer s
           \<and> length (channel s') = length (channel s) - 1"
proof (cases "channel s")
  case Nil
  then show ?thesis using assms(2) by (simp add: dispatch_one_def)
next
  case (Cons c rest)
  then obtain front ms where b: "message_ptr_buffer s = front # ms"
    using assms(2) by (cases "message_ptr_buffer s") auto
  have "invoke cb (s\<lparr>channel := rest\<rparr>)
          = (None, s\<lparr>channel := rest, user := snd (cb front (user s)),
                     invoked := invoked s @ [front], message_ptr_buffer := ms\<rparr>)"
    using invoke_returning [of "s\<lparr>channel := rest\<rparr>" front ms cb] b assms(1) by simp
  then show ?thesis using Cons b assms(2) by (simp add: dispatch_one_def)
qed

lemma dispatch_n_quiet:
  assumes "\<forall>m u. fst (cb m u) = None"
    and "length (channel s) = length (message_ptr_buffer s)"
  shows "\<exists>s'. dispatch_n n cb s = (None, s')
           \<and> length (channel s') = length (message_ptr_buffer s')
           \<and> invoked s' @ message_ptr_buffer s' = invoked s @ message_ptr_buffer s
           \<and> length (channel s') = length (channel s) - n"
  using assms(2)
proof (induction n arbitrary: s)
  case 0
  then show ?case by simp
next
  case (Suc n)
  obtain s1 where s1: "dispatch_one cb s = (None, s1)"
      "length (channel s1) = length (message_ptr_buffer s1)"
      "invoked s1 @ message_ptr_buffer s1 = invoked s @ message_ptr_buffer s"
      "length (channel s1) = length (channel s) - 1"
    using dispatch_one_quiet [OF assms(1) Suc.prems] by blast
  obtain s' where s': "dispatch_n n cb s1 = (None, s')"
      "length (channel s') = length (message_ptr_buffer s')"
      "invoked s' @ message_ptr_buffer s' = invoked s1 @ message_ptr_buffer s1"
      "length (channel s') = length (channel s1) - n"
    using Suc.IH [OF s1(2)] by blast
  have "dispatch_n (Suc n) cb s = (None, s')" using s1(1) s'(1) by simp
  moreover have "length (channel s') = length (channel s) - Suc n" using s1(4) s'(4) by simp
  ultimately show ?case using s'(2,3) s1(3) by simp
qed

lemma subscription_step_quiet:
  assumes "\<forall>m u. fst (cb m u) = None"
    and "length (channel s) = length (message_ptr_buffer s)"
  shows "\<exists>s'. subscription_step cb e s = (None, s')
           \<and> length (channel s') = length (message_ptr_buffer s')
           \<and> invoked s' @ message_ptr_buffer s' = invoked s @ message_ptr_buffer s @ delivered [e]
           \<and> (e = Drain_available \<longrightarrow> channel s' = [])"
proof (cases e)
  case (Data_available ok valid m)
  then show ?thesis using assms(2) by (simp add: on_data_available_def)
next
  case Dispatch_one
  then show ?thesis using dispatch_one_quiet [OF assms] by auto
next
  case Drain_available
  then show ?thesis using dispatch_n_quiet [OF assms, of "length (channel s)"]
    by (auto simp add: drain_available_def)
qed

lemma delivered_append: "delivered (xs @ ys) = delivered xs @ delivered ys"
  by (induction xs rule: delivered.induct) simp_all

lemma subscription_run_quiet:
  assumes "\<forall>m u. fst (cb m u) = None"
    and "length (channel s) = length (message_ptr_buffer s)"
  shows "\<exists>s'. subscription_run cb evs s = (None, s')
           \<and> length (channel s') = length (message_ptr_buffer s')
           \<and> invoked s' @ message_ptr_buffer s' = invoked s @ message_ptr_buffer s @ delivered evs"
  using assms(2)
proof (induction evs arbitrary: s)
  case Nil
  then show ?case by simp
next
  case (Cons e evs)
  obtain s1 where s1: "subscription_step cb e s = (None, s1)"
      "length (channel s1) = length (message_ptr_buffer s1)"
      "invoked s1 @ message_ptr_buffer s1 = invoked s @ message_ptr_buffer s @ delivered [e]"
    using subscription_step_quiet [OF assms(1) Cons.prems] by blast
  obtain s' where s': "subscription_run cb evs s1 = (None, s')"
      "length (channel s') = length (message_ptr_buffer s')"
      "invoked s' @ message_ptr_buffer s' = invoked s1 @ message_ptr_buffer s1 @ delivered evs"
    using Cons.IH [OF s1(2)] by blast
  have "subscription_run cb (e # evs) s = (None, s')" using s1(1) s'(1) by simp
  moreover have "invoked s' @ message_ptr_buffer s'
      = invoked s @ message_ptr_buffer s @ delivered (e # evs)"
    using s'(3) s1(3) delivered_append [of "[e]" evs] by simp
  ultimately show ?case using s'(2) by blast
qed

lemma subscription_run_append:
  "subscription_run cb (xs @ ys) s =
     (case subscription_run cb xs s of
        (None, s') \<Rightarrow> subscription_run cb ys s'
      | (Some x, s') \<Rightarrow> (Some x, s'))"
  by (induction xs arbitrary: s) (auto split: prod.splits option.splits)

lemma subscription_run_then_drain:
  assumes "\<forall>m u. fst (cb m u) = None"
    and "length (channel s) = length (message_ptr_buffer s)"
  shows "\<exists>s'. subscription_run cb (evs @ [Drain_available]) s = (None, s')
           \<and> channel s' = [] \<and> message_ptr_buffer s' = []
           \<and> invoked s' = invoked s @ message_ptr_buffer s @ delivered evs"
proof -
  obtain s1 where s1: "subscription_run cb evs s = (None, s1)"
      "length (channel s1) = length (message_ptr_buffer s1)"
      "invoked s1 @ message_ptr_buffer s1 = invoked s @ message_ptr_buffer s @ delivered evs"
    using subscription_run_quiet [OF assms] by blast
  obtain s' where s': "subscription_step cb Drain_available s1 = (None, s')"
      "length (channel s') = length (message_ptr_buffer s')"
      "invoked s' @ message_ptr_buffer s' = invoked s1 @ message_ptr_buffer s1 @ delivered [Drain_available]"
      "channel s' = []"
    using subscription_step_quiet [OF assms(1) s1(2), of Drain_available] by blast
  have "subscription_run cb (evs @ [Drain_available]) s = (None, s')"
    using s1(1) s'(1) by (simp add: subscription_run_append)
  moreover have "message_ptr_buffer s' = []" using s'(2,4) by simp
  moreover have "invoked s' = invoked s @ message_ptr_buffer s @ delivered evs"
    using s'(3) s1(3) \<open>message_ptr_buffer s' = []\<close> by simp
  ultimately show ?thesis using s'(4) by blast
qed

text \<open>
  The order of the calls when the user's callback returns normally. A delivered sample
  is put at the end of the buffer and one closure is put on the queue. A run of the
  closure on a non-empty buffer calls the callback with the front message and removes
  just that message. So, after any sequence of deliveries and dispatches on a new
  subscription, the messages the callback has been called with, followed by the messages
  still in the buffer, are the delivered messages in the order of their arrival, and a
  closure is pending for each buffered message; after a final drain the callback has been
  called with exactly the delivered messages, in that order, and the buffer is empty.
\<close>

theorem subscription_fifo_exactly_once:
  assumes "\<forall>m u. fst (cb m u) = None"
  shows "on_data_available True True m s
           = s\<lparr>message_ptr_buffer := message_ptr_buffer s @ [m],
               channel := channel s @ [Subscription_callback]\<rparr>
   \<and> (\<forall>front rest. message_ptr_buffer s = front # rest \<longrightarrow>
        invoke cb s = (None, s\<lparr>user := snd (cb front (user s)), invoked := invoked s @ [front],
                               message_ptr_buffer := rest\<rparr>))
   \<and> (\<exists>s'. subscription_run cb evs (SubscriberListener_ctor u) = (None, s')
         \<and> invoked s' @ message_ptr_buffer s' = delivered evs
         \<and> length (channel s') = length (message_ptr_buffer s'))
   \<and> (\<exists>s'. subscription_run cb (evs @ [Drain_available]) (SubscriberListener_ctor u) = (None, s')
         \<and> invoked s' = delivered evs \<and> message_ptr_buffer s' = [] \<and> channel s' = [])"
proof (intro conjI allI impI)
  show "on_data_available True True m s
           = s\<lparr>message_ptr_buffer := message_ptr_buffer s @ [m],
               channel := channel s @ [Subscription_callback]\<rparr>"
    by (simp add: on_data_available_def)
  show "invoke cb s = (None, s\<lparr>user := snd (cb front (user s)), invoked := invoked s @ [front],
                               message_ptr_buffer := rest\<rparr>)"
    if "message_ptr_buffer s = front # rest" for front rest
    using that assms by (simp add: invoke_returning)
  have init: "length (channel (SubscriberListener_ctor u :: ('a, 'b) subscription))
                = length (message_ptr_buffer (SubscriberListener_ctor u :: ('a, 'b) subscription))"
    by (simp add: SubscriberListener_ctor_def)
  show "\<exists>s'. subscription_run cb evs (SubscriberListener_ctor u) = (None, s')
         \<and> invoked s' @ message_ptr_buffer s' = delivered evs
         \<and> length (channel s') = length (message_ptr_buffer s')"
    using subscription_run_quiet [OF assms init, of evs] by (auto simp add: SubscriberListener_ctor_def)
  show "\<exists>s'. subscription_run cb (evs @ [Drain_available]) (SubscriberListener_ctor u) = (None, s')
         \<and> invoked s' = delivered evs \<and> message_ptr_buffer s' = [] \<and> channel s' = []"
    using subscription_run_then_drain [OF assms init, of evs] by (auto simp add: SubscriberListener_ctor_def)
qed

text \<open>
  The theorem on the counting callback: three messages, with a dispatch in between.
\<close>

theorem subscription_fifo_exactly_once_witness:
  "(\<forall>m u. fst (counting_callback m u) = None)
   \<and> invoked (snd (subscription_run counting_callback
        [Data_available True True 1, Data_available True True 2, Dispatch_one,
         Data_available True False 9, Data_available True True 3, Drain_available]
        (SubscriberListener_ctor (0::nat)))) = [1, 2, 3]
   \<and> message_ptr_buffer (snd (subscription_run counting_callback
        [Data_available True True 1, Data_available True True 2, Dispatch_one,
         Data_available True False 9, Data_available True True 3, Drain_available]
        (SubscriberListener_ctor 0))) = []"
proof -
  have q: "\<forall>m u. fst (counting_callback m u) = None"
    by (simp add: counting_callback_def)
  have d: "delivered [Data_available True True 1, Data_available True True 2, Dispatch_one,
         Data_available True False 9, Data_available True True (3::nat)] = [1, 2, 3]"
    by simp
  from subscription_fifo_exactly_once [OF q, of 0 "SubscriberListener_ctor 0"
         "[Data_available True True 1, Data_available True True 2, Dispatch_one,
           Data_available True False 9, Data_available True True 3]" 0]
  obtain s' where "subscription_run counting_callback
        ([Data_available True True 1, Data_available True True 2, Dispatch_one,
          Data_available True False 9, Data_available True True 3] @ [Drain_available])
        (SubscriberListener_ctor 0) = (None, s')"
      "invoked s' = delivered [Data_available True True 1, Data_available True True 2, Dispatch_one,
         Data_available True False 9, Data_available True True 3]"
      "message_ptr_buffer s' = []"
    by blast
  then show ?thesis using q d by simp
qed

text \<open>
  Claim C2 at a callback that throws. Two messages are delivered to a new subscription
  and the queue is drained. The first closure calls the callback with the message 1; the
  exception takes control past \<^verbatim>\<open>erase\<close>, so the message stays at the front. The second
  closure calls the callback with the message 1 again. The message 2 is never handed to
  the callback, and both messages are still in the buffer when the queue is empty.
\<close>

theorem throwing_callback_sees_front_message_again:
  "invoked (snd (subscription_run throwing_callback
        [Data_available True True 1, Data_available True True 2, Drain_available]
        (SubscriberListener_ctor (0::nat)))) = [1, 1]
   \<and> message_ptr_buffer (snd (subscription_run throwing_callback
        [Data_available True True 1, Data_available True True 2, Drain_available]
        (SubscriberListener_ctor (0::nat)))) = [1, 2]
   \<and> channel (snd (subscription_run throwing_callback
        [Data_available True True 1, Data_available True True 2, Drain_available]
        (SubscriberListener_ctor (0::nat)))) = []"
  by (simp add: on_data_available_def SubscriberListener_ctor_def drain_available_def
      dispatch_one_def invoke_def invoke_try_def throwing_callback_def)

subsection \<open>The constructor of a subscriber\<close>

text \<open>
  The constructor reports every failure by an exception derived from
  \<^verbatim>\<open>std::exception\<close>: it leaves an object exactly when the type was registered and a
  topic, a subscriber and a data reader were obtained.
\<close>

lemma Subscriber_ctor_succeeds_iff:
  "(\<exists>s. Subscriber_ctor a = Inr s) \<longleftrightarrow>
     register_type_ok a \<and> (retrieved_topic a \<noteq> 0 \<or> created_topic a \<noteq> 0)
     \<and> created_subscriber a \<noteq> 0 \<and> created_datareader a \<noteq> 0"
  by (auto simp add: Subscriber_ctor_def Let_def)

lemma Subscriber_ctor_throws_std_exception:
  "Subscriber_ctor a = Inl (e, cleanup) \<Longrightarrow> \<exists>what. e = Std_exception what"
  by (auto simp add: Subscriber_ctor_def Let_def split: if_splits)

end
